theory Spec2Isabelle
  imports Main "HOL-Library.Word"
begin

section \<open>Data model\<close>

text \<open>
  The repository is \<^verbatim>\<open>shared-ptr.h\<close> and \<^verbatim>\<open>shared-ptr.cpp\<close>: a control block with two
  plain \<^verbatim>\<open>std::size_t\<close> counters, two block variants, and the handle classes
  \<^verbatim>\<open>shared_ptr<T>\<close> and \<^verbatim>\<open>weak_ptr<T>\<close>.

  An object pointer \<^verbatim>\<open>T*\<close> is \<open>Nullptr\<close>, the address of some object outside any
  control block (\<open>Obj n\<close>), or the address of the member \<^verbatim>\<open>storage_.data\<close> of the
  in-place block allocated at \<open>a\<close> (\<open>Storage a\<close>, what \<^verbatim>\<open>get_ptr()\<close> returns).
  A control-block pointer \<^verbatim>\<open>control_block_t*\<close> is \<open>None\<close> for \<^verbatim>\<open>nullptr\<close> and
  \<open>Some a\<close> for the block allocated at address \<open>a\<close>.
\<close>

datatype pointer = Nullptr | Obj nat | Storage nat

type_synonym size_t = "64 word"

text \<open>
  \<^verbatim>\<open>std::size_t\<close> is taken to be 64 bits wide; its arithmetic wraps around.

  A destruction action is opaque to the library: it is identified by a tag, and calling
  it is recorded in the trace. \<open>Default_delete\<close> is \<^verbatim>\<open>std::default_delete<Y>\<close>.
  A call of an action, like the destructor of a managed object, is taken not to operate
  on the handles and control blocks of the program.
\<close>

datatype deleter = Default_delete | Action nat

text \<open>
  \<^verbatim>\<open>mem_control_block<T, Deleter>\<close> holds \<^verbatim>\<open>data_\<close> and \<^verbatim>\<open>deleter_\<close>;
  \<^verbatim>\<open>inplace_control_block<T>\<close> holds the union \<^verbatim>\<open>storage_\<close>, whose member is either a
  constructed object (\<open>Some v\<close>) or raw storage (\<open>None\<close>).
\<close>

datatype 'v block_kind = Mem_block pointer deleter | Inplace_block "'v option"

record 'v control_block =
  strong_refs :: size_t
  weak_refs :: size_t
  kind :: "'v block_kind"

text \<open>Both handle classes have the two members \<^verbatim>\<open>ptr_\<close> and \<^verbatim>\<open>cb_\<close>, here \<open>ptr\<close> and \<open>cb\<close>.\<close>

record handle =
  ptr :: pointer
  cb :: "nat option"

type_synonym shared_ptr = handle
type_synonym weak_ptr = handle

text \<open>
  What the program does to the outside world, in order: a block came into being
  (a \<^verbatim>\<open>new\<close> expression completed), the virtual \<^verbatim>\<open>delete_data()\<close> of a block ran,
  a destruction action was called on a pointer, \<^verbatim>\<open>std::destroy_at\<close> ran on the storage
  of a block, \<^verbatim>\<open>delete this\<close> ran on a block.
\<close>

datatype event =
    Block_created nat
  | Delete_data nat
  | Deleter_call deleter pointer
  | Destroy_at nat
  | Deallocate nat

text \<open>
  The program state: the heap of control blocks, the handle objects of the client
  (a slot is \<open>None\<close> once its handle's lifetime has ended; slots are never reused, so an
  index names one handle object), and the trace.
\<close>

record 'v state =
  heap :: "nat \<rightharpoonup> 'v control_block"
  shared_handles :: "shared_ptr option list"
  weak_handles :: "weak_ptr option list"
  trace :: "event list"

text \<open>
  \<open>Dangling_block\<close>: the code dereferences a control-block pointer whose block has been
  deleted (undefined behaviour). \<open>Dead_handle\<close>: the client names a handle object that is
  not alive. \<open>Not_executable\<close>: the allocator is said to return an address that is still
  in use, which no allocator does.
\<close>

datatype fault = Dangling_block | Dead_handle | Not_executable

datatype exn = Bad_alloc | Ctor_failure

datatype ('r, 's) outcome = Returned 'r 's | Threw exn 's

definition and_then :: "fault + 'a \<Rightarrow> ('a \<Rightarrow> fault + 'b) \<Rightarrow> fault + 'b" where
  "and_then r f = (case r of Inl e \<Rightarrow> Inl e | Inr x \<Rightarrow> f x)"

definition init :: "'v state" where
  "init = \<lparr>heap = Map.empty, shared_handles = [], weak_handles = [], trace = []\<rparr>"

section \<open>The control block (shared-ptr.cpp)\<close>

definition add_strong_ref :: "nat \<Rightarrow> 'v state \<Rightarrow> fault + 'v state" where
  "add_strong_ref a s =
     (case heap s a of
        None \<Rightarrow> Inl Dangling_block
      | Some b \<Rightarrow> Inr (s\<lparr>heap := (heap s)(a \<mapsto> b\<lparr>strong_refs := strong_refs b + 1\<rparr>)\<rparr>))"

definition add_weak_ref :: "nat \<Rightarrow> 'v state \<Rightarrow> fault + 'v state" where
  "add_weak_ref a s =
     (case heap s a of
        None \<Rightarrow> Inl Dangling_block
      | Some b \<Rightarrow> Inr (s\<lparr>heap := (heap s)(a \<mapsto> b\<lparr>weak_refs := weak_refs b + 1\<rparr>)\<rparr>))"

definition get_strong_refs :: "nat \<Rightarrow> 'v state \<Rightarrow> fault + size_t" where
  "get_strong_refs a s =
     (case heap s a of None \<Rightarrow> Inl Dangling_block | Some b \<Rightarrow> Inr (strong_refs b))"

text \<open>
  The virtual \<^verbatim>\<open>delete_data()\<close>: the memory block calls \<^verbatim>\<open>deleter_(data_)\<close>, the in-place
  block runs \<^verbatim>\<open>std::destroy_at(&storage_.data)\<close>, after which the storage is raw again.
\<close>

definition delete_data :: "nat \<Rightarrow> 'v state \<Rightarrow> fault + 'v state" where
  "delete_data a s =
     (case heap s a of
        None \<Rightarrow> Inl Dangling_block
      | Some b \<Rightarrow>
          (case kind b of
             Mem_block p d \<Rightarrow> Inr (s\<lparr>trace := trace s @ [Delete_data a, Deleter_call d p]\<rparr>)
           | Inplace_block v \<Rightarrow>
               Inr (s\<lparr>heap := (heap s)(a \<mapsto> b\<lparr>kind := Inplace_block None\<rparr>),
                      trace := trace s @ [Delete_data a, Destroy_at a]\<rparr>)))"

definition release_weak_ref :: "nat \<Rightarrow> 'v state \<Rightarrow> fault + 'v state" where
  "release_weak_ref a s =
     (case heap s a of
        None \<Rightarrow> Inl Dangling_block
      | Some b \<Rightarrow>
          (let b' = b\<lparr>weak_refs := weak_refs b - 1\<rparr> in
           if weak_refs b' = 0
           then Inr (s\<lparr>heap := (heap s)(a := None), trace := trace s @ [Deallocate a]\<rparr>)
           else Inr (s\<lparr>heap := (heap s)(a \<mapsto> b')\<rparr>)))"

definition release_strong_ref :: "nat \<Rightarrow> 'v state \<Rightarrow> fault + 'v state" where
  "release_strong_ref a s =
     (case heap s a of
        None \<Rightarrow> Inl Dangling_block
      | Some b \<Rightarrow>
          (let b' = b\<lparr>strong_refs := strong_refs b - 1\<rparr>;
               s1 = s\<lparr>heap := (heap s)(a \<mapsto> b')\<rparr> in
           if strong_refs b' = 0
           then and_then (delete_data a s1) (release_weak_ref a)
           else Inr s1))"

section \<open>The owning handle \<^verbatim>\<open>shared_ptr<T>\<close> (shared-ptr.h)\<close>

text \<open>
  A constructor returns the handle it builds. A member function that changes
  \<^verbatim>\<open>*this\<close> or \<^verbatim>\<open>other\<close> takes the index of the handle object among the client's
  handles, so that \<^verbatim>\<open>this\<close> and \<^verbatim>\<open>&other\<close> may be the same object.
\<close>

definition lookup :: "handle option list \<Rightarrow> nat \<Rightarrow> fault + handle" where
  "lookup xs i =
     (if i < length xs
      then (case xs ! i of None \<Rightarrow> Inl Dead_handle | Some h \<Rightarrow> Inr h)
      else Inl Dead_handle)"

text \<open>\<^verbatim>\<open>shared_ptr() noexcept : ptr_(nullptr), cb_(nullptr)\<close>, also for \<^verbatim>\<open>nullptr_t\<close>.\<close>

definition shared_ptr_default :: shared_ptr where
  "shared_ptr_default = \<lparr>ptr = Nullptr, cb = None\<rparr>"

text \<open>
  A \<^verbatim>\<open>new\<close> expression for a control block: the allocator either fails (\<open>None\<close>,
  \<^verbatim>\<open>std::bad_alloc\<close>) or returns an address not in use; the base class initialises
  both counters to 1.
\<close>

definition new_block ::
  "nat option \<Rightarrow> 'v block_kind \<Rightarrow> 'v state \<Rightarrow> fault + (nat, 'v state) outcome" where
  "new_block alloc k s =
     (case alloc of
        None \<Rightarrow> Inr (Threw Bad_alloc s)
      | Some a \<Rightarrow>
          if heap s a \<noteq> None then Inl Not_executable
          else Inr (Returned a
                 (s\<lparr>heap := (heap s)(a \<mapsto> \<lparr>strong_refs = 1, weak_refs = 1, kind = k\<rparr>),
                    trace := trace s @ [Block_created a]\<rparr>)))"

text \<open>
  \<^verbatim>\<open>shared_ptr(Y* ptr, Deleter deleter)\<close>: when the \<^verbatim>\<open>new\<close> expression throws, the
  handler calls \<^verbatim>\<open>deleter(ptr)\<close> and rethrows.
\<close>

definition shared_ptr_raw_deleter ::
  "pointer \<Rightarrow> deleter \<Rightarrow> nat option \<Rightarrow> 'v state \<Rightarrow> fault + (shared_ptr, 'v state) outcome" where
  "shared_ptr_raw_deleter p d alloc s =
     and_then (new_block alloc (Mem_block p d) s)
       (\<lambda>r. case r of
          Threw e s1 \<Rightarrow> Inr (Threw e (s1\<lparr>trace := trace s1 @ [Deleter_call d p]\<rparr>))
        | Returned a s1 \<Rightarrow> Inr (Returned \<lparr>ptr = p, cb = Some a\<rparr> s1))"

text \<open>\<^verbatim>\<open>explicit shared_ptr(Y* ptr) : shared_ptr(ptr, std::default_delete<Y>())\<close>\<close>

definition shared_ptr_raw ::
  "pointer \<Rightarrow> nat option \<Rightarrow> 'v state \<Rightarrow> fault + (shared_ptr, 'v state) outcome" where
  "shared_ptr_raw p alloc s = shared_ptr_raw_deleter p Default_delete alloc s"

text \<open>The private \<^verbatim>\<open>shared_ptr(T* ptr, control_block_t* cb)\<close>.\<close>

definition shared_ptr_ptr_cb ::
  "pointer \<Rightarrow> nat option \<Rightarrow> 'v state \<Rightarrow> fault + shared_ptr \<times> 'v state" where
  "shared_ptr_ptr_cb p c s =
     (case c of
        None \<Rightarrow> Inr (\<lparr>ptr = p, cb = None\<rparr>, s)
      | Some a \<Rightarrow> and_then (add_strong_ref a s) (\<lambda>s1. Inr (\<lparr>ptr = p, cb = Some a\<rparr>, s1)))"

text \<open>The aliasing constructors \<^verbatim>\<open>shared_ptr(const shared_ptr<Y>& other, T* ptr)\<close> and
  \<^verbatim>\<open>shared_ptr(shared_ptr<Y>&& other, T* ptr)\<close>; the second returns the new handle and
  the new value of \<^verbatim>\<open>other\<close>.\<close>

definition shared_ptr_alias_copy ::
  "shared_ptr \<Rightarrow> pointer \<Rightarrow> 'v state \<Rightarrow> fault + shared_ptr \<times> 'v state" where
  "shared_ptr_alias_copy other p s = shared_ptr_ptr_cb p (cb other) s"

definition shared_ptr_alias_move :: "shared_ptr \<Rightarrow> pointer \<Rightarrow> shared_ptr \<times> shared_ptr" where
  "shared_ptr_alias_move other p =
     (\<lparr>ptr = p, cb = cb other\<rparr>, other\<lparr>cb := None, ptr := Nullptr\<rparr>)"

text \<open>The copy and move constructors (also the converting ones) delegate to the aliasing
  constructors with \<^verbatim>\<open>other.ptr_\<close>.\<close>

definition shared_ptr_copy :: "shared_ptr \<Rightarrow> 'v state \<Rightarrow> fault + shared_ptr \<times> 'v state" where
  "shared_ptr_copy other s = shared_ptr_alias_copy other (ptr other) s"

definition shared_ptr_move :: "shared_ptr \<Rightarrow> shared_ptr \<times> shared_ptr" where
  "shared_ptr_move other = shared_ptr_alias_move other (ptr other)"

text \<open>\<^verbatim>\<open>inplace_control_block<T>::get_ptr()\<close> and the private
  \<^verbatim>\<open>shared_ptr(inplace_control_block<T>* cb) : ptr_(cb->get_ptr()), cb_(cb)\<close>.\<close>

definition get_ptr :: "nat \<Rightarrow> pointer" where
  "get_ptr a = Storage a"

definition shared_ptr_inplace :: "nat \<Rightarrow> shared_ptr" where
  "shared_ptr_inplace a = \<lparr>ptr = get_ptr a, cb = Some a\<rparr>"

text \<open>\<^verbatim>\<open>~shared_ptr()\<close>\<close>

definition shared_ptr_dtor :: "shared_ptr \<Rightarrow> 'v state \<Rightarrow> fault + 'v state" where
  "shared_ptr_dtor h s = (case cb h of None \<Rightarrow> Inr s | Some a \<Rightarrow> release_strong_ref a s)"

definition get :: "shared_ptr \<Rightarrow> pointer" where
  "get h = ptr h"

definition operator_bool :: "shared_ptr \<Rightarrow> bool" where
  "operator_bool h = (ptr h \<noteq> Nullptr)"

definition use_count :: "shared_ptr \<Rightarrow> 'v state \<Rightarrow> fault + size_t" where
  "use_count h s = (case cb h of None \<Rightarrow> Inr 0 | Some a \<Rightarrow> get_strong_refs a s)"

text \<open>\<^verbatim>\<open>operator*\<close>: the object \<^verbatim>\<open>ptr_\<close> points to; the only objects the state holds are
  the ones in the storage of in-place blocks.\<close>

definition deref :: "shared_ptr \<Rightarrow> 'v state \<Rightarrow> 'v option" where
  "deref h s =
     (case ptr h of
        Storage a \<Rightarrow>
          (case heap s a of
             Some b \<Rightarrow> (case kind b of Inplace_block v \<Rightarrow> v | Mem_block p d \<Rightarrow> None)
           | None \<Rightarrow> None)
      | Obj n \<Rightarrow> None
      | Nullptr \<Rightarrow> None)"

text \<open>\<^verbatim>\<open>swap\<close> exchanges both members; the result is the new \<^verbatim>\<open>*this\<close> and the new
  \<^verbatim>\<open>other\<close>.\<close>

definition swap :: "handle \<Rightarrow> handle \<Rightarrow> handle \<times> handle" where
  "swap this other =
     (this\<lparr>ptr := ptr other, cb := cb other\<rparr>, other\<lparr>ptr := ptr this, cb := cb this\<rparr>)"

text \<open>
  The statement \<^verbatim>\<open>tmp.swap(*this);\<close> on a temporary \<open>tmp\<close>, whose destructor runs at
  the end of the statement: every assignment operator and every \<^verbatim>\<open>reset\<close> is this
  statement after the construction of its temporary.
\<close>

definition swap_in :: "nat \<Rightarrow> shared_ptr \<Rightarrow> 'v state \<Rightarrow> fault + 'v state" where
  "swap_in this tmp s =
     and_then (lookup (shared_handles s) this)
       (\<lambda>t. case swap tmp t of
          (tmp', t') \<Rightarrow>
            shared_ptr_dtor tmp' (s\<lparr>shared_handles := (shared_handles s)[this := Some t']\<rparr>))"

definition assign_copy :: "nat \<Rightarrow> nat \<Rightarrow> 'v state \<Rightarrow> fault + 'v state" where
  "assign_copy this other s =
     and_then (lookup (shared_handles s) other)
       (\<lambda>oth. and_then (shared_ptr_copy oth s) (\<lambda>(tmp, s1). swap_in this tmp s1))"

definition assign_move :: "nat \<Rightarrow> nat \<Rightarrow> 'v state \<Rightarrow> fault + 'v state" where
  "assign_move this other s =
     and_then (lookup (shared_handles s) other)
       (\<lambda>oth. case shared_ptr_move oth of
          (tmp, oth') \<Rightarrow>
            swap_in this tmp (s\<lparr>shared_handles := (shared_handles s)[other := Some oth']\<rparr>))"

definition reset :: "nat \<Rightarrow> 'v state \<Rightarrow> fault + 'v state" where
  "reset this s = swap_in this shared_ptr_default s"

definition reset_raw_deleter ::
  "nat \<Rightarrow> pointer \<Rightarrow> deleter \<Rightarrow> nat option \<Rightarrow> 'v state \<Rightarrow> fault + (unit, 'v state) outcome" where
  "reset_raw_deleter this p d alloc s =
     and_then (shared_ptr_raw_deleter p d alloc s)
       (\<lambda>r. case r of
          Threw e s1 \<Rightarrow> Inr (Threw e s1)
        | Returned tmp s1 \<Rightarrow> and_then (swap_in this tmp s1) (\<lambda>s2. Inr (Returned () s2)))"

definition reset_raw ::
  "nat \<Rightarrow> pointer \<Rightarrow> nat option \<Rightarrow> 'v state \<Rightarrow> fault + (unit, 'v state) outcome" where
  "reset_raw this p alloc s =
     and_then (shared_ptr_raw p alloc s)
       (\<lambda>r. case r of
          Threw e s1 \<Rightarrow> Inr (Threw e s1)
        | Returned tmp s1 \<Rightarrow> and_then (swap_in this tmp s1) (\<lambda>s2. Inr (Returned () s2)))"

definition swap_handles :: "nat \<Rightarrow> nat \<Rightarrow> 'v state \<Rightarrow> fault + 'v state" where
  "swap_handles this other s =
     and_then (lookup (shared_handles s) this)
       (\<lambda>t. and_then (lookup (shared_handles s) other)
          (\<lambda>oth. case swap t oth of
             (t', oth') \<Rightarrow>
               Inr (s\<lparr>shared_handles := (shared_handles s)[this := Some t', other := Some oth']\<rparr>)))"

text \<open>The comparison operators.\<close>

definition operator_eq :: "shared_ptr \<Rightarrow> shared_ptr \<Rightarrow> bool" where
  "operator_eq lhs rhs = (get lhs = get rhs)"

definition operator_eq_null :: "shared_ptr \<Rightarrow> bool" where
  "operator_eq_null lhs = (\<not> (get lhs \<noteq> Nullptr))"

definition null_eq_operator :: "shared_ptr \<Rightarrow> bool" where
  "null_eq_operator rhs = (\<not> (get rhs \<noteq> Nullptr))"

definition operator_neq :: "shared_ptr \<Rightarrow> shared_ptr \<Rightarrow> bool" where
  "operator_neq lhs rhs = (\<not> operator_eq lhs rhs)"

text \<open>
  \<^verbatim>\<open>make_shared<T>(args...)\<close>: one \<^verbatim>\<open>new\<close> expression for the in-place block, whose
  constructor runs \<^verbatim>\<open>std::construct_at(&storage_.data, args...)\<close>. The constructor of
  \<open>T\<close> is the parameter \<open>ctor\<close>; it returns \<open>None\<close> when it throws, and then the
  \<^verbatim>\<open>new\<close> expression gives the memory back and the exception propagates.
\<close>

definition make_shared ::
  "('x \<Rightarrow> 'v option) \<Rightarrow> 'x \<Rightarrow> nat option \<Rightarrow> 'v state \<Rightarrow> fault + (shared_ptr, 'v state) outcome" where
  "make_shared ctor args alloc s =
     (case alloc of
        None \<Rightarrow> Inr (Threw Bad_alloc s)
      | Some a \<Rightarrow>
          if heap s a \<noteq> None then Inl Not_executable
          else (case ctor args of
                  None \<Rightarrow> Inr (Threw Ctor_failure s)
                | Some v \<Rightarrow>
                    and_then (new_block alloc (Inplace_block (Some v)) s)
                      (\<lambda>r. case r of
                         Threw e s1 \<Rightarrow> Inr (Threw e s1)
                       | Returned a' s1 \<Rightarrow> Inr (Returned (shared_ptr_inplace a') s1))))"

section \<open>The observing handle \<^verbatim>\<open>weak_ptr<T>\<close>\<close>

definition weak_ptr_default :: weak_ptr where
  "weak_ptr_default = \<lparr>ptr = Nullptr, cb = None\<rparr>"

text \<open>The private \<^verbatim>\<open>weak_ptr(T* ptr, control_block_t* cb)\<close>, to which the constructors
  from a shared handle and the copy constructors delegate.\<close>

definition weak_ptr_ptr_cb ::
  "pointer \<Rightarrow> nat option \<Rightarrow> 'v state \<Rightarrow> fault + weak_ptr \<times> 'v state" where
  "weak_ptr_ptr_cb p c s =
     (case c of
        None \<Rightarrow> Inr (\<lparr>ptr = p, cb = None\<rparr>, s)
      | Some a \<Rightarrow> and_then (add_weak_ref a s) (\<lambda>s1. Inr (\<lparr>ptr = p, cb = Some a\<rparr>, s1)))"

definition weak_ptr_copy :: "handle \<Rightarrow> 'v state \<Rightarrow> fault + weak_ptr \<times> 'v state" where
  "weak_ptr_copy other s = weak_ptr_ptr_cb (ptr other) (cb other) s"

text \<open>The move constructors: \<^verbatim>\<open>std::exchange\<close> on both members of \<^verbatim>\<open>other\<close>.\<close>

definition weak_ptr_move :: "weak_ptr \<Rightarrow> weak_ptr \<times> weak_ptr" where
  "weak_ptr_move other =
     (\<lparr>ptr = ptr other, cb = cb other\<rparr>, other\<lparr>ptr := Nullptr, cb := None\<rparr>)"

definition weak_ptr_dtor :: "weak_ptr \<Rightarrow> 'v state \<Rightarrow> fault + 'v state" where
  "weak_ptr_dtor h s = (case cb h of None \<Rightarrow> Inr s | Some a \<Rightarrow> release_weak_ref a s)"

definition weak_swap_in :: "nat \<Rightarrow> weak_ptr \<Rightarrow> 'v state \<Rightarrow> fault + 'v state" where
  "weak_swap_in this tmp s =
     and_then (lookup (weak_handles s) this)
       (\<lambda>t. case swap tmp t of
          (tmp', t') \<Rightarrow>
            weak_ptr_dtor tmp' (s\<lparr>weak_handles := (weak_handles s)[this := Some t']\<rparr>))"

definition weak_assign_shared :: "nat \<Rightarrow> nat \<Rightarrow> 'v state \<Rightarrow> fault + 'v state" where
  "weak_assign_shared this other s =
     and_then (lookup (shared_handles s) other)
       (\<lambda>oth. and_then (weak_ptr_copy oth s) (\<lambda>(tmp, s1). weak_swap_in this tmp s1))"

definition weak_assign_copy :: "nat \<Rightarrow> nat \<Rightarrow> 'v state \<Rightarrow> fault + 'v state" where
  "weak_assign_copy this other s =
     and_then (lookup (weak_handles s) other)
       (\<lambda>oth. and_then (weak_ptr_copy oth s) (\<lambda>(tmp, s1). weak_swap_in this tmp s1))"

definition weak_assign_move :: "nat \<Rightarrow> nat \<Rightarrow> 'v state \<Rightarrow> fault + 'v state" where
  "weak_assign_move this other s =
     and_then (lookup (weak_handles s) other)
       (\<lambda>oth. case weak_ptr_move oth of
          (tmp, oth') \<Rightarrow>
            weak_swap_in this tmp (s\<lparr>weak_handles := (weak_handles s)[other := Some oth']\<rparr>))"

definition lock :: "weak_ptr \<Rightarrow> 'v state \<Rightarrow> fault + shared_ptr \<times> 'v state" where
  "lock w s =
     (case cb w of
        None \<Rightarrow> Inr (shared_ptr_default, s)
      | Some a \<Rightarrow>
          and_then (get_strong_refs a s)
            (\<lambda>n. if n = 0 then Inr (shared_ptr_default, s)
                 else shared_ptr_ptr_cb (ptr w) (cb w) s))"

definition weak_reset :: "nat \<Rightarrow> 'v state \<Rightarrow> fault + 'v state" where
  "weak_reset this s = weak_swap_in this weak_ptr_default s"

definition weak_swap_handles :: "nat \<Rightarrow> nat \<Rightarrow> 'v state \<Rightarrow> fault + 'v state" where
  "weak_swap_handles this other s =
     and_then (lookup (weak_handles s) this)
       (\<lambda>t. and_then (lookup (weak_handles s) other)
          (\<lambda>oth. case swap t oth of
             (t', oth') \<Rightarrow>
               Inr (s\<lparr>weak_handles := (weak_handles s)[this := Some t', other := Some oth']\<rparr>)))"

section \<open>Client programs\<close>

text \<open>
  A client program is a sequence of operations on its handle objects. An operation that
  constructs a handle object adds it at the next index; an operation on existing objects
  names them by index. The outcome of each allocation (\<open>None\<close> when it fails, else the
  address) and the constructor of the managed type are part of the operation. An
  exception leaves the operation (the handle under construction does not come to exist)
  and the program continues with the next one.
\<close>

datatype ('x, 'v) op =
    New_null
  | New_raw pointer "nat option"
  | New_raw_deleter pointer deleter "nat option"
  | Alias_copy nat pointer
  | Alias_move nat pointer
  | Copy nat
  | Move nat
  | Assign_copy nat nat
  | Assign_move nat nat
  | Reset nat
  | Reset_raw nat pointer "nat option"
  | Reset_raw_deleter nat pointer deleter "nat option"
  | Swap nat nat
  | Destroy nat
  | Make_shared "'x \<Rightarrow> 'v option" 'x "nat option"
  | Weak_null
  | Weak_from_shared nat
  | Weak_copy nat
  | Weak_move nat
  | Weak_assign_shared nat nat
  | Weak_assign_copy nat nat
  | Weak_assign_move nat nat
  | Lock nat
  | Weak_reset nat
  | Weak_swap nat nat
  | Weak_destroy nat

definition new_shared :: "shared_ptr \<Rightarrow> 'v state \<Rightarrow> 'v state" where
  "new_shared h s = s\<lparr>shared_handles := shared_handles s @ [Some h]\<rparr>"

definition new_weak :: "weak_ptr \<Rightarrow> 'v state \<Rightarrow> 'v state" where
  "new_weak h s = s\<lparr>weak_handles := weak_handles s @ [Some h]\<rparr>"

definition constructed :: "fault + (shared_ptr, 'v state) outcome \<Rightarrow> fault + 'v state" where
  "constructed r =
     and_then r (\<lambda>x. case x of Returned h s1 \<Rightarrow> Inr (new_shared h s1) | Threw e s1 \<Rightarrow> Inr s1)"

definition completed :: "fault + (unit, 'v state) outcome \<Rightarrow> fault + 'v state" where
  "completed r = and_then r (\<lambda>x. case x of Returned u s1 \<Rightarrow> Inr s1 | Threw e s1 \<Rightarrow> Inr s1)"

fun step :: "'v state \<Rightarrow> ('x, 'v) op \<Rightarrow> fault + 'v state" where
  "step s New_null = Inr (new_shared shared_ptr_default s)"
| "step s (New_raw p alloc) = constructed (shared_ptr_raw p alloc s)"
| "step s (New_raw_deleter p d alloc) = constructed (shared_ptr_raw_deleter p d alloc s)"
| "step s (Alias_copy i p) =
     and_then (lookup (shared_handles s) i)
       (\<lambda>oth. and_then (shared_ptr_alias_copy oth p s) (\<lambda>(h, s1). Inr (new_shared h s1)))"
| "step s (Alias_move i p) =
     and_then (lookup (shared_handles s) i)
       (\<lambda>oth. case shared_ptr_alias_move oth p of
          (h, oth') \<Rightarrow>
            Inr (new_shared h (s\<lparr>shared_handles := (shared_handles s)[i := Some oth']\<rparr>)))"
| "step s (Copy i) =
     and_then (lookup (shared_handles s) i)
       (\<lambda>oth. and_then (shared_ptr_copy oth s) (\<lambda>(h, s1). Inr (new_shared h s1)))"
| "step s (Move i) =
     and_then (lookup (shared_handles s) i)
       (\<lambda>oth. case shared_ptr_move oth of
          (h, oth') \<Rightarrow>
            Inr (new_shared h (s\<lparr>shared_handles := (shared_handles s)[i := Some oth']\<rparr>)))"
| "step s (Assign_copy i j) = assign_copy i j s"
| "step s (Assign_move i j) = assign_move i j s"
| "step s (Reset i) = reset i s"
| "step s (Reset_raw i p alloc) = completed (reset_raw i p alloc s)"
| "step s (Reset_raw_deleter i p d alloc) = completed (reset_raw_deleter i p d alloc s)"
| "step s (Swap i j) = swap_handles i j s"
| "step s (Destroy i) =
     and_then (lookup (shared_handles s) i)
       (\<lambda>h. and_then (shared_ptr_dtor h s)
          (\<lambda>s1. Inr (s1\<lparr>shared_handles := (shared_handles s1)[i := None]\<rparr>)))"
| "step s (Make_shared ctor args alloc) = constructed (make_shared ctor args alloc s)"
| "step s Weak_null = Inr (new_weak weak_ptr_default s)"
| "step s (Weak_from_shared i) =
     and_then (lookup (shared_handles s) i)
       (\<lambda>oth. and_then (weak_ptr_copy oth s) (\<lambda>(h, s1). Inr (new_weak h s1)))"
| "step s (Weak_copy i) =
     and_then (lookup (weak_handles s) i)
       (\<lambda>oth. and_then (weak_ptr_copy oth s) (\<lambda>(h, s1). Inr (new_weak h s1)))"
| "step s (Weak_move i) =
     and_then (lookup (weak_handles s) i)
       (\<lambda>oth. case weak_ptr_move oth of
          (h, oth') \<Rightarrow>
            Inr (new_weak h (s\<lparr>weak_handles := (weak_handles s)[i := Some oth']\<rparr>)))"
| "step s (Weak_assign_shared i j) = weak_assign_shared i j s"
| "step s (Weak_assign_copy i j) = weak_assign_copy i j s"
| "step s (Weak_assign_move i j) = weak_assign_move i j s"
| "step s (Lock i) =
     and_then (lookup (weak_handles s) i)
       (\<lambda>w. and_then (lock w s) (\<lambda>(h, s1). Inr (new_shared h s1)))"
| "step s (Weak_reset i) = weak_reset i s"
| "step s (Weak_swap i j) = weak_swap_handles i j s"
| "step s (Weak_destroy i) =
     and_then (lookup (weak_handles s) i)
       (\<lambda>h. and_then (weak_ptr_dtor h s)
          (\<lambda>s1. Inr (s1\<lparr>weak_handles := (weak_handles s1)[i := None]\<rparr>)))"

fun run :: "'v state \<Rightarrow> ('x, 'v) op list \<Rightarrow> fault + 'v state" where
  "run s [] = Inr s"
| "run s (x # xs) = and_then (step s x) (\<lambda>s1. run s1 xs)"

section \<open>Counting holders, and the life of a block\<close>

text \<open>The live handles of a list that hold the block at \<open>a\<close>.\<close>

fun owns :: "nat \<Rightarrow> handle option \<Rightarrow> bool" where
  "owns a None = False"
| "owns a (Some h) = (cb h = Some a)"

definition holders :: "nat \<Rightarrow> handle option list \<Rightarrow> nat" where
  "holders a xs = length (filter (owns a) xs)"

text \<open>The handle objects the client has constructed so far, dead ones included.\<close>

definition handle_objects :: "'v state \<Rightarrow> nat" where
  "handle_objects s = length (shared_handles s) + length (weak_handles s)"

text \<open>
  The life of the block at an address, read off the trace: it is created, then its
  \<^verbatim>\<open>delete_data()\<close> runs, then it is deallocated, and only then can the address be
  that of a new block. Any other order of these three events ends in \<open>Broken\<close>.
\<close>

datatype phase = Unallocated | Alive | Expired | Freed | Broken

fun advance :: "nat \<Rightarrow> phase \<Rightarrow> event \<Rightarrow> phase" where
  "advance a ph (Block_created b) =
     (if b \<noteq> a then ph else if ph = Unallocated \<or> ph = Freed then Alive else Broken)"
| "advance a ph (Delete_data b) =
     (if b \<noteq> a then ph else if ph = Alive then Expired else Broken)"
| "advance a ph (Deallocate b) =
     (if b \<noteq> a then ph else if ph = Expired then Freed else Broken)"
| "advance a ph (Deleter_call d p) = ph"
| "advance a ph (Destroy_at b) = ph"

definition phase_of :: "nat \<Rightarrow> event list \<Rightarrow> phase" where
  "phase_of a tr = foldl (advance a) Unallocated tr"

text \<open>
  The invariant, for one address. \<open>cs a\<close> and \<open>cw a\<close> are the numbers of shared and
  of weak handles that hold the block at \<open>a\<close>; while an operation runs, they include its
  temporaries. A block that is not allocated has no holder; an allocated block's strong
  count is the number of shared holders, its weak count is the number of weak holders,
  plus one while the strong count is not 0, and is not 0; and the trace says that the
  block is alive while the strong count is not 0 and expired afterwards.
\<close>

definition block_inv :: "(nat \<Rightarrow> nat) \<Rightarrow> (nat \<Rightarrow> nat) \<Rightarrow> 'v state \<Rightarrow> nat \<Rightarrow> bool" where
  "block_inv cs cw s a =
     (case heap s a of
        None \<Rightarrow>
          cs a = 0 \<and> cw a = 0
          \<and> (phase_of a (trace s) = Unallocated \<or> phase_of a (trace s) = Freed)
      | Some b \<Rightarrow>
          unat (strong_refs b) = cs a
          \<and> unat (weak_refs b) = cw a + (if strong_refs b = 0 then 0 else 1)
          \<and> weak_refs b \<noteq> 0
          \<and> phase_of a (trace s) = (if strong_refs b = 0 then Expired else Alive))"

definition inv_with :: "(nat \<Rightarrow> nat) \<Rightarrow> (nat \<Rightarrow> nat) \<Rightarrow> 'v state \<Rightarrow> bool" where
  "inv_with cs cw s = (\<forall>a. block_inv cs cw s a)"

text \<open>Between two operations of the client the holders are its live handle objects.\<close>

definition consistent :: "'v state \<Rightarrow> bool" where
  "consistent s =
     inv_with (\<lambda>a. holders a (shared_handles s)) (\<lambda>a. holders a (weak_handles s)) s"

text \<open>One holder more, or one less, of the block a handle points to.\<close>

definition bump :: "nat option \<Rightarrow> (nat \<Rightarrow> nat) \<Rightarrow> nat \<Rightarrow> nat" where
  "bump c cs = (case c of None \<Rightarrow> cs | Some a \<Rightarrow> cs(a := Suc (cs a)))"

definition unbump :: "nat option \<Rightarrow> (nat \<Rightarrow> nat) \<Rightarrow> nat \<Rightarrow> nat" where
  "unbump c cs = (case c of None \<Rightarrow> cs | Some a \<Rightarrow> cs(a := cs a - 1))"

text \<open>
  What an operation may do to a consistent state: fail because the client names a dead
  handle or the allocator's answer is impossible, but never touch a deleted block; or
  end in a consistent state in which no handle object has disappeared.
\<close>

definition step_ok :: "'v state \<Rightarrow> fault + 'v state \<Rightarrow> bool" where
  "step_ok s r =
     (case r of
        Inl f \<Rightarrow> f \<noteq> Dangling_block
      | Inr s' \<Rightarrow>
          consistent s' \<and> length (shared_handles s) \<le> length (shared_handles s')
          \<and> length (weak_handles s) \<le> length (weak_handles s'))"

text \<open>The handle objects are the same, or at least none has disappeared.\<close>

definition same_handles :: "'v state \<Rightarrow> 'v state \<Rightarrow> bool" where
  "same_handles s s' = (shared_handles s' = shared_handles s \<and> weak_handles s' = weak_handles s)"

definition grown :: "'v state \<Rightarrow> 'v state \<Rightarrow> bool" where
  "grown s s' = (length (shared_handles s) \<le> length (shared_handles s')
     \<and> length (weak_handles s) \<le> length (weak_handles s'))"

definition one_more :: "'v state \<Rightarrow> 'v state \<Rightarrow> bool" where
  "one_more s s' = (handle_objects s' \<le> Suc (handle_objects s))"

section \<open>Handles without a block\<close>

text \<open>
  An aliasing constructor stores the address it is given whatever the block of its source
  is. \<open>aliases_null_block s x\<close> says that the operation \<open>x\<close> is such a construction with
  a non-null address from a source that has no block, and \<open>plain s ops\<close> that the program
  \<open>ops\<close>, run from \<open>s\<close>, has no such operation.
\<close>

fun aliases_null_block :: "'v state \<Rightarrow> ('x, 'v) op \<Rightarrow> bool" where
  "aliases_null_block s (Alias_copy i p) =
     (p \<noteq> Nullptr \<and> (case lookup (shared_handles s) i of Inr h \<Rightarrow> cb h = None | Inl f \<Rightarrow> False))"
| "aliases_null_block s (Alias_move i p) =
     (p \<noteq> Nullptr \<and> (case lookup (shared_handles s) i of Inr h \<Rightarrow> cb h = None | Inl f \<Rightarrow> False))"
| "aliases_null_block s x = False"

fun plain :: "'v state \<Rightarrow> ('x, 'v) op list \<Rightarrow> bool" where
  "plain s [] = True"
| "plain s (x # xs) =
     (\<not> aliases_null_block s x \<and> (case step s x of Inr s1 \<Rightarrow> plain s1 xs | Inl f \<Rightarrow> True))"

text \<open>A handle is tidy when it has a block or its observer pointer is null.\<close>

definition tidy :: "handle \<Rightarrow> bool" where
  "tidy h = (cb h = None \<longrightarrow> ptr h = Nullptr)"

definition tidy_all :: "handle option list \<Rightarrow> bool" where
  "tidy_all xs = list_all (\<lambda>x. case x of None \<Rightarrow> True | Some h \<Rightarrow> tidy h) xs"

definition tidy_state :: "'v state \<Rightarrow> bool" where
  "tidy_state s = (tidy_all (shared_handles s) \<and> tidy_all (weak_handles s))"

section \<open>Counting lemmas\<close>

lemma holders_append: "holders a (xs @ [x]) = holders a xs + (if owns a x then 1 else 0)"
  by (simp add: holders_def)

lemma holders_update:
  "i < length xs \<Longrightarrow>
     holders a (xs[i := x]) + (if owns a (xs ! i) then 1 else 0)
       = holders a xs + (if owns a x then 1 else 0)"
proof (induction xs arbitrary: i)
  case Nil
  then show ?case by simp
next
  case (Cons y ys)
  show ?case
  proof (cases i)
    case 0
    then show ?thesis by (simp add: holders_def)
  next
    case (Suc j)
    with Cons.prems have "j < length ys" by simp
    from Cons.IH [OF this] Suc show ?thesis by (simp add: holders_def)
  qed
qed

lemma holders_le: "holders a xs \<le> length xs"
  by (simp add: holders_def)

lemma lookup_Inr: "lookup xs i = Inr h \<longleftrightarrow> i < length xs \<and> xs ! i = Some h"
  by (auto simp: lookup_def split: option.splits)

lemma holders_pos:
  assumes "lookup xs i = Inr h" and "cb h = Some a"
  shows "0 < holders a xs"
proof -
  from assms have "Some h \<in> set xs" and "owns a (Some h)"
    by (auto simp: lookup_Inr dest: nth_mem)
  then have "filter (owns a) xs \<noteq> []"
    unfolding filter_empty_conv by blast
  then show ?thesis by (simp add: holders_def)
qed

lemma phase_of_snoc: "phase_of a (tr @ [e]) = advance a (phase_of a tr) e"
  by (simp add: phase_of_def)

lemma phase_of_snoc2: "phase_of a (tr @ [e, e']) = advance a (advance a (phase_of a tr) e) e'"
  by (simp add: phase_of_def)

lemma unat_succ: "unat (w :: size_t) < 2 ^ 64 - 1 \<Longrightarrow> unat (w + 1) = unat w + 1"
  by (simp add: unat_word_ariths)

lemma unat_pred: "(w :: size_t) \<noteq> 0 \<Longrightarrow> unat (w - 1) = unat w - 1"
  by (simp add: unat_minus_one)

lemma word_zero_unat: "((w :: size_t) = 0) = (unat w = 0)"
  by (simp add: word_unat_eq_iff)

lemma pred_zero_unat: "((w :: size_t) - 1 = 0) = (unat w = 1)"
proof -
  have "(w - 1 = 0) = (w = 1)" by simp
  then show ?thesis by (simp add: word_unat_eq_iff)
qed

section \<open>The invariant under the operations of the control block\<close>

lemma block_inv_frame:
  assumes "block_inv cs cw s a"
    and "heap s' a = heap s a"
    and "cs' a = cs a"
    and "cw' a = cw a"
    and "phase_of a (trace s') = phase_of a (trace s)"
  shows "block_inv cs' cw' s' a"
  using assms(1) unfolding block_inv_def assms(2-5) .

lemma inv_withI: "(\<And>a. block_inv cs cw s a) \<Longrightarrow> inv_with cs cw s"
  by (simp add: inv_with_def)

lemma inv_withD: "inv_with cs cw s \<Longrightarrow> block_inv cs cw s a"
  by (simp add: inv_with_def)

lemma inv_with_handles [simp]:
  "inv_with cs cw (s\<lparr>shared_handles := xs\<rparr>) = inv_with cs cw s"
  "inv_with cs cw (s\<lparr>weak_handles := ys\<rparr>) = inv_with cs cw s"
  by (simp_all add: inv_with_def block_inv_def cong: option.case_cong)

lemma inv_with_allocated:
  assumes "inv_with cs cw s" and "0 < cs a"
  obtains b where "heap s a = Some b" and "strong_refs b \<noteq> 0"
    and "unat (strong_refs b) = cs a"
proof -
  from assms(1) have "block_inv cs cw s a" by (rule inv_withD)
  with assms(2) show thesis
    using that unfolding block_inv_def by (auto simp: word_zero_unat split: option.splits)
qed

lemma inv_with_allocated_weak:
  assumes "inv_with cs cw s" and "0 < cw a"
  obtains b where "heap s a = Some b"
proof -
  from assms(1) have "block_inv cs cw s a" by (rule inv_withD)
  with assms(2) show thesis
    using that unfolding block_inv_def by (auto split: option.splits)
qed

lemma add_strong_ref_inv:
  assumes I: "inv_with cs cw s"
    and pos: "0 < cs a"
    and room: "cs a < 2 ^ 64 - 1"
  shows "\<exists>s'. add_strong_ref a s = Inr s' \<and> inv_with (cs(a := Suc (cs a))) cw s'
           \<and> shared_handles s' = shared_handles s \<and> weak_handles s' = weak_handles s"
proof -
  from I pos obtain b where b: "heap s a = Some b" "strong_refs b \<noteq> 0"
    "unat (strong_refs b) = cs a"
    by (rule inv_with_allocated)
  let ?s' = "s\<lparr>heap := (heap s)(a \<mapsto> b\<lparr>strong_refs := strong_refs b + 1\<rparr>)\<rparr>"
  have run: "add_strong_ref a s = Inr ?s'"
    by (simp add: add_strong_ref_def b)
  have u: "unat (strong_refs b + 1) = unat (strong_refs b) + 1"
    using room b(3) by (simp add: unat_succ)
  have "block_inv (cs(a := Suc (cs a))) cw ?s' a'" for a'
  proof (cases "a' = a")
    case True
    from I have "block_inv cs cw s a" by (rule inv_withD)
    then show ?thesis
      using b u True unfolding block_inv_def by (simp add: word_zero_unat)
  next
    case False
    from I have "block_inv cs cw s a'" by (rule inv_withD)
    then show ?thesis
      by (rule block_inv_frame) (use False in simp_all)
  qed
  then have "inv_with (cs(a := Suc (cs a))) cw ?s'" by (rule inv_withI)
  with run show ?thesis by simp
qed

lemma add_weak_ref_inv:
  assumes I: "inv_with cs cw s"
    and alloc: "heap s a \<noteq> None"
    and room: "cw a < 2 ^ 64 - 2"
  shows "\<exists>s'. add_weak_ref a s = Inr s' \<and> inv_with cs (cw(a := Suc (cw a))) s'
           \<and> shared_handles s' = shared_handles s \<and> weak_handles s' = weak_handles s"
proof -
  from alloc obtain b where b: "heap s a = Some b" by auto
  let ?s' = "s\<lparr>heap := (heap s)(a \<mapsto> b\<lparr>weak_refs := weak_refs b + 1\<rparr>)\<rparr>"
  have run: "add_weak_ref a s = Inr ?s'"
    by (simp add: add_weak_ref_def b)
  from I have Ia: "block_inv cs cw s a" by (rule inv_withD)
  have w: "unat (weak_refs b) < 2 ^ 64 - 1"
    using Ia room b unfolding block_inv_def by (simp split: if_splits)
  have u: "unat (weak_refs b + 1) = unat (weak_refs b) + 1"
    using w by (simp add: unat_succ)
  have "block_inv cs (cw(a := Suc (cw a))) ?s' a'" for a'
  proof (cases "a' = a")
    case True
    show ?thesis
      using Ia b u True unfolding block_inv_def by (simp add: word_zero_unat)
  next
    case False
    from I have "block_inv cs cw s a'" by (rule inv_withD)
    then show ?thesis
      by (rule block_inv_frame) (use False in simp_all)
  qed
  then have "inv_with cs (cw(a := Suc (cw a))) ?s'" by (rule inv_withI)
  with run show ?thesis by simp
qed

lemma release_weak_ref_inv:
  assumes I: "inv_with cs cw s"
    and pos: "0 < cw a"
  shows "\<exists>s'. release_weak_ref a s = Inr s' \<and> inv_with cs (cw(a := cw a - 1)) s'
           \<and> shared_handles s' = shared_handles s \<and> weak_handles s' = weak_handles s"
proof -
  from I have Ia: "block_inv cs cw s a" by (rule inv_withD)
  with pos obtain b where b: "heap s a = Some b"
    unfolding block_inv_def by (auto split: option.splits)
  from Ia b have wb: "unat (weak_refs b) =
      cw a + (if strong_refs b = 0 then 0 else 1)"
    and sb: "unat (strong_refs b) = cs a"
    and ph: "phase_of a (trace s) = (if strong_refs b = 0 then Expired else Alive)"
    unfolding block_inv_def by simp_all
  from wb pos have nz: "weak_refs b \<noteq> 0" by (auto simp: word_zero_unat)
  have u: "unat (weak_refs b - 1) = unat (weak_refs b) - 1"
    using nz by (rule unat_pred)
  show ?thesis
  proof (cases "weak_refs b - 1 = 0")
    case True
    let ?s' = "s\<lparr>heap := (heap s)(a := None), trace := trace s @ [Deallocate a]\<rparr>"
    have run: "release_weak_ref a s = Inr ?s'"
      using True by (simp add: release_weak_ref_def b)
    from True have one: "unat (weak_refs b) = 1" by (simp only: pred_zero_unat)
    with wb have "cw a + (if strong_refs b = 0 then 0 else 1) = 1"
      by linarith
    with pos have z: "cw a = 1" "strong_refs b = 0"
      by (simp_all split: if_splits)
    with sb have zs: "cs a = 0" by simp
    have "block_inv cs (cw(a := cw a - 1)) ?s' a'" for a'
    proof (cases "a' = a")
      case True
      then show ?thesis
        using z zs ph unfolding block_inv_def by (simp add: phase_of_snoc)
    next
      case False
      from I have "block_inv cs cw s a'" by (rule inv_withD)
      then show ?thesis
        by (rule block_inv_frame) (use False in \<open>simp_all add: phase_of_snoc\<close>)
    qed
    then have "inv_with cs (cw(a := cw a - 1)) ?s'" by (rule inv_withI)
    with run show ?thesis by simp
  next
    case False
    let ?s' = "s\<lparr>heap := (heap s)(a \<mapsto> b\<lparr>weak_refs := weak_refs b - 1\<rparr>)\<rparr>"
    have run: "release_weak_ref a s = Inr ?s'"
      using False by (simp add: release_weak_ref_def b)
    have "block_inv cs (cw(a := cw a - 1)) ?s' a'" for a'
    proof (cases "a' = a")
      case True
      then show ?thesis
        using wb sb ph u False pos unfolding block_inv_def by (simp split: if_splits)
    next
      case False
      from I have "block_inv cs cw s a'" by (rule inv_withD)
      then show ?thesis
        by (rule block_inv_frame) (use False in simp_all)
    qed
    then have "inv_with cs (cw(a := cw a - 1)) ?s'" by (rule inv_withI)
    with run show ?thesis by simp
  qed
qed

lemma deleter_call_inv:
  assumes I: "inv_with cs cw s"
  shows "inv_with cs cw (s\<lparr>trace := trace s @ [Deleter_call d p]\<rparr>)"
proof (rule inv_withI)
  fix a
  from I have "block_inv cs cw s a" by (rule inv_withD)
  then show "block_inv cs cw (s\<lparr>trace := trace s @ [Deleter_call d p]\<rparr>) a"
    by (rule block_inv_frame) (simp_all add: phase_of_snoc)
qed

lemma new_block_inv:
  assumes I: "inv_with cs cw s"
    and fresh: "heap s a = None"
  shows "\<exists>s'. new_block (Some a) k s = Inr (Returned a s')
           \<and> inv_with (cs(a := 1)) cw s'
           \<and> shared_handles s' = shared_handles s \<and> weak_handles s' = weak_handles s"
proof -
  let ?s' = "s\<lparr>heap := (heap s)(a \<mapsto> \<lparr>strong_refs = 1, weak_refs = 1, kind = k\<rparr>),
                 trace := trace s @ [Block_created a]\<rparr>"
  have run: "new_block (Some a) k s = Inr (Returned a ?s')"
    by (simp add: new_block_def fresh)
  have "block_inv (cs(a := 1)) cw ?s' a'" for a'
  proof (cases "a' = a")
    case True
    from I have "block_inv cs cw s a" by (rule inv_withD)
    then show ?thesis
      using fresh True unfolding block_inv_def by (auto simp: phase_of_snoc)
  next
    case False
    from I have "block_inv cs cw s a'" by (rule inv_withD)
    then show ?thesis
      by (rule block_inv_frame) (use False in \<open>simp_all add: phase_of_snoc\<close>)
  qed
  then have "inv_with (cs(a := 1)) cw ?s'" by (rule inv_withI)
  with run show ?thesis by simp
qed

lemma delete_data_inv:
  assumes I: "inv_with cs cw s"
    and b: "heap s a = Some b" "strong_refs b = 1"
  shows "\<exists>s'. delete_data a (s\<lparr>heap := (heap s)(a \<mapsto> b\<lparr>strong_refs := strong_refs b - 1\<rparr>)\<rparr>) = Inr s'
           \<and> inv_with (cs(a := 0)) (cw(a := Suc (cw a))) s'
           \<and> cs a = 1
           \<and> shared_handles s' = shared_handles s \<and> weak_handles s' = weak_handles s"
proof -
  let ?s1 = "s\<lparr>heap := (heap s)(a \<mapsto> b\<lparr>strong_refs := strong_refs b - 1\<rparr>)\<rparr>"
  from I have Ia: "block_inv cs cw s a" by (rule inv_withD)
  from Ia b have one: "cs a = 1"
    unfolding block_inv_def by simp
  obtain s' where run: "delete_data a ?s1 = Inr s'"
    and h: "\<exists>k. heap s' = (heap s)(a \<mapsto> b\<lparr>strong_refs := 0, kind := k\<rparr>)"
    and t: "\<exists>e. trace s' = trace s @ [Delete_data a, e] \<and> (\<forall>a' ph. advance a' ph e = ph)"
    and sw: "shared_handles s' = shared_handles s" "weak_handles s' = weak_handles s"
  proof (cases "kind b")
    case (Mem_block p d)
    show thesis
      by (rule that [of "?s1\<lparr>trace := trace s @ [Delete_data a, Deleter_call d p]\<rparr>"])
        (auto simp: delete_data_def Mem_block b intro!: exI [of _ "kind b"])
  next
    case (Inplace_block v)
    show thesis
      by (rule that [of "?s1\<lparr>heap := (heap ?s1)(a \<mapsto> b\<lparr>strong_refs := strong_refs b - 1, kind := Inplace_block None\<rparr>),
            trace := trace s @ [Delete_data a, Destroy_at a]\<rparr>"])
        (auto simp: delete_data_def Inplace_block b)
  qed
  from h obtain k where hk: "heap s' = (heap s)(a \<mapsto> b\<lparr>strong_refs := 0, kind := k\<rparr>)" ..
  from t obtain e where te: "trace s' = trace s @ [Delete_data a, e]"
    and ne: "\<And>a' ph. advance a' ph e = ph" by blast
  have "block_inv (cs(a := 0)) (cw(a := Suc (cw a))) s' a'" for a'
  proof (cases "a' = a")
    case True
    show ?thesis
      using Ia b one True hk te ne sw unfolding block_inv_def
      by (simp add: phase_of_snoc2)
  next
    case False
    from I have "block_inv cs cw s a'" by (rule inv_withD)
    then show ?thesis
      by (rule block_inv_frame) (use False hk te ne sw in \<open>simp_all add: phase_of_snoc2\<close>)
  qed
  then have "inv_with (cs(a := 0)) (cw(a := Suc (cw a))) s'" by (rule inv_withI)
  with run one sw show ?thesis by simp
qed

lemma release_strong_ref_inv:
  assumes I: "inv_with cs cw s"
    and pos: "0 < cs a"
  shows "\<exists>s'. release_strong_ref a s = Inr s' \<and> inv_with (cs(a := cs a - 1)) cw s'
           \<and> shared_handles s' = shared_handles s \<and> weak_handles s' = weak_handles s"
proof -
  from I pos obtain b where b: "heap s a = Some b" "strong_refs b \<noteq> 0"
    "unat (strong_refs b) = cs a"
    by (rule inv_with_allocated)
  from I have Ia: "block_inv cs cw s a" by (rule inv_withD)
  let ?s1 = "s\<lparr>heap := (heap s)(a \<mapsto> b\<lparr>strong_refs := strong_refs b - 1\<rparr>)\<rparr>"
  have u: "unat (strong_refs b - 1) = unat (strong_refs b) - 1"
    using b(2) by (rule unat_pred)
  show ?thesis
  proof (cases "strong_refs b - 1 = 0")
    case True
    then have one: "strong_refs b = 1" by simp
    from delete_data_inv [OF I b(1) one] obtain s2 where
      d: "delete_data a ?s1 = Inr s2"
      and I2: "inv_with (cs(a := 0)) (cw(a := Suc (cw a))) s2"
      and h1: "cs a = 1"
      and sw2: "shared_handles s2 = shared_handles s" "weak_handles s2 = weak_handles s"
      by blast
    from release_weak_ref_inv [OF I2, of a] obtain s' where
      r: "release_weak_ref a s2 = Inr s'"
      and I3: "inv_with (cs(a := 0)) ((cw(a := Suc (cw a)))(a := (cw(a := Suc (cw a))) a - 1)) s'"
      and sw3: "shared_handles s' = shared_handles s2" "weak_handles s' = weak_handles s2"
      by auto
    from h1 I3 have "inv_with (cs(a := cs a - 1)) cw s'" by simp
    moreover have "release_strong_ref a s = Inr s'"
      using True d r by (simp add: release_strong_ref_def b(1) and_then_def Let_def)
    ultimately show ?thesis using sw2 sw3 by simp
  next
    case False
    have run: "release_strong_ref a s = Inr ?s1"
      using False by (simp add: release_strong_ref_def b(1) Let_def)
    have "block_inv (cs(a := cs a - 1)) cw ?s1 a'" for a'
    proof (cases "a' = a")
      case True
      show ?thesis
        using Ia b u False pos True unfolding block_inv_def
        by (simp add: word_zero_unat)
    next
      case False
      from I have "block_inv cs cw s a'" by (rule inv_withD)
      then show ?thesis
        by (rule block_inv_frame) (use False in simp_all)
    qed
    then have "inv_with (cs(a := cs a - 1)) cw ?s1" by (rule inv_withI)
    with run show ?thesis by simp
  qed
qed

section \<open>The invariant under the operations of the handles\<close>

lemma bump_simps [simp]:
  "bump None cs = cs"
  "bump (Some a) cs = cs(a := Suc (cs a))"
  "unbump None cs = cs"
  "unbump (Some a) cs = cs(a := cs a - 1)"
  by (simp_all add: bump_def unbump_def)

lemma holders_fun_append:
  "(\<lambda>a. holders a (xs @ [Some h])) = bump (cb h) (\<lambda>a. holders a xs)"
  by (cases "cb h") (auto simp: holders_append fun_eq_iff)

lemma holders_fun_kill:
  assumes "lookup xs i = Inr t"
  shows "(\<lambda>a. holders a (xs[i := None])) = unbump (cb t) (\<lambda>a. holders a xs)"
proof
  fix a
  from assms have i: "i < length xs" "xs ! i = Some t" by (simp_all add: lookup_Inr)
  from holders_update [OF i(1), of a None] i(2)
  show "holders a (xs[i := None]) = unbump (cb t) (\<lambda>a. holders a xs) a"
    by (cases "cb t") (auto split: if_splits)
qed

lemma holders_fun_update:
  assumes "lookup xs i = Inr t"
  shows "(\<lambda>a. holders a (xs[i := Some h])) = bump (cb h) (unbump (cb t) (\<lambda>a. holders a xs))"
proof
  fix a
  from assms have i: "i < length xs" "xs ! i = Some t" by (simp_all add: lookup_Inr)
  from holders_update [OF i(1), of a "Some h"] i(2) holders_pos [OF assms, of a]
  show "holders a (xs[i := Some h]) = bump (cb h) (unbump (cb t) (\<lambda>a. holders a xs)) a"
    by (cases "cb t"; cases "cb h") (auto split: if_splits)
qed

lemma bump_unbump_commute:
  assumes "\<And>a. c' = Some a \<Longrightarrow> 0 < cs a"
  shows "bump c (unbump c' cs) = unbump c' (bump c cs)"
  using assms by (cases c; cases c') (auto simp: fun_eq_iff)

lemma unbump_bump [simp]: "unbump c (bump c cs) = cs"
  by (cases c) (auto simp: fun_eq_iff)

lemma bump_unbump:
  assumes "\<And>a. c = Some a \<Longrightarrow> 0 < cs a"
  shows "bump c (unbump c cs) = cs"
  using assms by (cases c) (auto simp: fun_eq_iff)

lemma shared_ptr_dtor_inv:
  assumes I: "inv_with cs cw s"
    and pos: "\<And>a. cb h = Some a \<Longrightarrow> 0 < cs a"
  shows "\<exists>s'. shared_ptr_dtor h s = Inr s' \<and> inv_with (unbump (cb h) cs) cw s'
           \<and> shared_handles s' = shared_handles s \<and> weak_handles s' = weak_handles s"
proof (cases "cb h")
  case None
  with I show ?thesis by (simp add: shared_ptr_dtor_def)
next
  case (Some a)
  with release_strong_ref_inv [OF I pos [OF Some]] show ?thesis
    by (simp add: shared_ptr_dtor_def)
qed

lemma weak_ptr_dtor_inv:
  assumes I: "inv_with cs cw s"
    and pos: "\<And>a. cb h = Some a \<Longrightarrow> 0 < cw a"
  shows "\<exists>s'. weak_ptr_dtor h s = Inr s' \<and> inv_with cs (unbump (cb h) cw) s'
           \<and> shared_handles s' = shared_handles s \<and> weak_handles s' = weak_handles s"
proof (cases "cb h")
  case None
  with I show ?thesis by (simp add: weak_ptr_dtor_def)
next
  case (Some a)
  with release_weak_ref_inv [OF I pos [OF Some]] show ?thesis
    by (simp add: weak_ptr_dtor_def)
qed

lemma shared_ptr_ptr_cb_inv:
  assumes I: "inv_with cs cw s"
    and pos: "\<And>a. c = Some a \<Longrightarrow> 0 < cs a \<and> cs a < 2 ^ 64 - 1"
  shows "\<exists>s'. shared_ptr_ptr_cb p c s = Inr (\<lparr>ptr = p, cb = c\<rparr>, s')
           \<and> inv_with (bump c cs) cw s'
           \<and> shared_handles s' = shared_handles s \<and> weak_handles s' = weak_handles s"
proof (cases c)
  case None
  with I show ?thesis by (simp add: shared_ptr_ptr_cb_def)
next
  case (Some a)
  from pos [OF Some] have "0 < cs a" "cs a < 2 ^ 64 - 1" by simp_all
  from add_strong_ref_inv [OF I this] Some show ?thesis
    by (auto simp: shared_ptr_ptr_cb_def and_then_def)
qed

lemma weak_ptr_ptr_cb_inv:
  assumes I: "inv_with cs cw s"
    and pos: "\<And>a. c = Some a \<Longrightarrow> heap s a \<noteq> None \<and> cw a < 2 ^ 64 - 2"
  shows "\<exists>s'. weak_ptr_ptr_cb p c s = Inr (\<lparr>ptr = p, cb = c\<rparr>, s')
           \<and> inv_with cs (bump c cw) s'
           \<and> shared_handles s' = shared_handles s \<and> weak_handles s' = weak_handles s"
proof (cases c)
  case None
  with I show ?thesis by (simp add: weak_ptr_ptr_cb_def)
next
  case (Some a)
  from pos [OF Some] have "heap s a \<noteq> None" "cw a < 2 ^ 64 - 2" by simp_all
  from add_weak_ref_inv [OF I this] Some show ?thesis
    by (auto simp: weak_ptr_ptr_cb_def and_then_def)
qed

lemma consistentI:
  assumes "inv_with cs cw s"
    and "(\<lambda>a. holders a (shared_handles s)) = cs"
    and "(\<lambda>a. holders a (weak_handles s)) = cw"
  shows "consistent s"
  using assms by (simp add: consistent_def)

lemma consistentD:
  "consistent s \<Longrightarrow>
     inv_with (\<lambda>a. holders a (shared_handles s)) (\<lambda>a. holders a (weak_handles s)) s"
  by (simp add: consistent_def)

lemma swap_in_inv:
  assumes I: "inv_with (bump (cb tmp) (\<lambda>a. holders a (shared_handles s)))
                (\<lambda>a. holders a (weak_handles s)) s"
    and t: "lookup (shared_handles s) this = Inr t"
  shows "\<exists>s'. swap_in this tmp s = Inr s' \<and> consistent s'
           \<and> length (shared_handles s') = length (shared_handles s)
           \<and> weak_handles s' = weak_handles s"
proof -
  let ?H = "\<lambda>a. holders a (shared_handles s)"
  let ?t' = "t\<lparr>ptr := ptr tmp, cb := cb tmp\<rparr>"
  let ?tmp' = "tmp\<lparr>ptr := ptr t, cb := cb t\<rparr>"
  let ?s1 = "s\<lparr>shared_handles := (shared_handles s)[this := Some ?t']\<rparr>"
  have pos: "0 < ?H a" if "cb t = Some a" for a
    using t that by (rule holders_pos)
  have I1: "inv_with (bump (cb tmp) ?H) (\<lambda>a. holders a (weak_handles s)) ?s1"
    using I by simp
  have "\<And>a. cb ?tmp' = Some a \<Longrightarrow> 0 < bump (cb tmp) ?H a"
    using pos by (cases "cb tmp") auto
  from shared_ptr_dtor_inv [OF I1 this] obtain s' where
    d: "shared_ptr_dtor ?tmp' ?s1 = Inr s'"
    and I2: "inv_with (unbump (cb ?tmp') (bump (cb tmp) ?H)) (\<lambda>a. holders a (weak_handles s)) s'"
    and sw: "shared_handles s' = shared_handles ?s1" "weak_handles s' = weak_handles ?s1"
    by blast
  have run: "swap_in this tmp s = Inr s'"
    using d t by (simp add: swap_in_def and_then_def swap_def)
  have "(\<lambda>a. holders a (shared_handles s')) = unbump (cb ?tmp') (bump (cb tmp) ?H)"
    using sw holders_fun_update [OF t, of ?t'] bump_unbump_commute [of "cb t" ?H "cb tmp"] pos
    by simp
  with I2 sw have "consistent s'"
    by (intro consistentI [OF I2]) simp_all
  with run sw show ?thesis by simp
qed

lemma weak_swap_in_inv:
  assumes I: "inv_with (\<lambda>a. holders a (shared_handles s))
                (bump (cb tmp) (\<lambda>a. holders a (weak_handles s))) s"
    and t: "lookup (weak_handles s) this = Inr t"
  shows "\<exists>s'. weak_swap_in this tmp s = Inr s' \<and> consistent s'
           \<and> length (weak_handles s') = length (weak_handles s)
           \<and> shared_handles s' = shared_handles s"
proof -
  let ?W = "\<lambda>a. holders a (weak_handles s)"
  let ?t' = "t\<lparr>ptr := ptr tmp, cb := cb tmp\<rparr>"
  let ?tmp' = "tmp\<lparr>ptr := ptr t, cb := cb t\<rparr>"
  let ?s1 = "s\<lparr>weak_handles := (weak_handles s)[this := Some ?t']\<rparr>"
  have pos: "0 < ?W a" if "cb t = Some a" for a
    using t that by (rule holders_pos)
  have I1: "inv_with (\<lambda>a. holders a (shared_handles s)) (bump (cb tmp) ?W) ?s1"
    using I by simp
  have "\<And>a. cb ?tmp' = Some a \<Longrightarrow> 0 < bump (cb tmp) ?W a"
    using pos by (cases "cb tmp") auto
  from weak_ptr_dtor_inv [OF I1 this] obtain s' where
    d: "weak_ptr_dtor ?tmp' ?s1 = Inr s'"
    and I2: "inv_with (\<lambda>a. holders a (shared_handles s)) (unbump (cb ?tmp') (bump (cb tmp) ?W)) s'"
    and sw: "shared_handles s' = shared_handles ?s1" "weak_handles s' = weak_handles ?s1"
    by blast
  have run: "weak_swap_in this tmp s = Inr s'"
    using d t by (simp add: weak_swap_in_def and_then_def swap_def)
  have "(\<lambda>a. holders a (weak_handles s')) = unbump (cb ?tmp') (bump (cb tmp) ?W)"
    using sw holders_fun_update [OF t, of ?t'] bump_unbump_commute [of "cb t" ?W "cb tmp"] pos
    by simp
  with I2 sw have "consistent s'"
    by (intro consistentI [OF I2]) simp_all
  with run sw show ?thesis by simp
qed

lemma step_okI:
  assumes "consistent s'"
    and "length (shared_handles s) \<le> length (shared_handles s')"
    and "length (weak_handles s) \<le> length (weak_handles s')"
  shows "step_ok s (Inr s')"
  using assms by (simp add: step_ok_def)

lemma step_ok_fault [simp]:
  "step_ok s (Inl Dead_handle)" "step_ok s (Inl Not_executable)"
  by (simp_all add: step_ok_def)

lemma lookup_fault: "lookup xs i = Inl f \<Longrightarrow> f = Dead_handle"
  by (auto simp: lookup_def split: if_splits option.splits)

lemma and_then_lookup_ok:
  assumes "\<And>h. lookup xs i = Inr h \<Longrightarrow> step_ok s (f h)"
  shows "step_ok s (and_then (lookup xs i) f)"
proof (cases "lookup xs i")
  case (Inl e)
  with lookup_fault [OF Inl] show ?thesis by (simp add: and_then_def)
next
  case (Inr h)
  with assms show ?thesis by (simp add: and_then_def)
qed

lemma new_shared_consistent:
  assumes "inv_with (bump (cb h) (\<lambda>a. holders a (shared_handles s)))
             (\<lambda>a. holders a (weak_handles s)) s"
  shows "consistent (new_shared h s)"
  using assms by (intro consistentI [where cs = "bump (cb h) (\<lambda>a. holders a (shared_handles s))"
        and cw = "\<lambda>a. holders a (weak_handles s)"])
    (simp_all add: new_shared_def holders_fun_append)

lemma new_weak_consistent:
  assumes "inv_with (\<lambda>a. holders a (shared_handles s))
             (bump (cb h) (\<lambda>a. holders a (weak_handles s))) s"
  shows "consistent (new_weak h s)"
  using assms by (intro consistentI [where cw = "bump (cb h) (\<lambda>a. holders a (weak_handles s))"
        and cs = "\<lambda>a. holders a (shared_handles s)"])
    (simp_all add: new_weak_def holders_fun_append)

text \<open>The constructors that allocate.\<close>

lemma raw_deleter_inv:
  assumes C: "consistent s"
  shows "case shared_ptr_raw_deleter p d alloc s of
           Inl f \<Rightarrow> f = Not_executable
         | Inr (Threw e s1) \<Rightarrow>
             consistent s1 \<and> shared_handles s1 = shared_handles s
             \<and> weak_handles s1 = weak_handles s
         | Inr (Returned h s1) \<Rightarrow>
             inv_with (bump (cb h) (\<lambda>a. holders a (shared_handles s)))
               (\<lambda>a. holders a (weak_handles s)) s1
             \<and> shared_handles s1 = shared_handles s \<and> weak_handles s1 = weak_handles s"
proof (cases alloc)
  case None
  from deleter_call_inv [OF consistentD [OF C], of d p]
  have "consistent (s\<lparr>trace := trace s @ [Deleter_call d p]\<rparr>)"
    by (simp add: consistent_def)
  with None show ?thesis
    by (simp add: shared_ptr_raw_deleter_def new_block_def and_then_def)
next
  case (Some a)
  show ?thesis
  proof (cases "heap s a")
    case (Some b)
    with \<open>alloc = Some a\<close> show ?thesis
      by (simp add: shared_ptr_raw_deleter_def new_block_def and_then_def)
  next
    case None
    from consistentD [OF C] have "block_inv (\<lambda>a. holders a (shared_handles s))
        (\<lambda>a. holders a (weak_handles s)) s a" by (rule inv_withD)
    with None have z: "holders a (shared_handles s) = 0"
      unfolding block_inv_def by simp
    from new_block_inv [OF consistentD [OF C] None, of "Mem_block p d"] obtain s' where
      n: "new_block (Some a) (Mem_block p d) s = Inr (Returned a s')"
      and I: "inv_with ((\<lambda>a. holders a (shared_handles s))(a := 1)) (\<lambda>a. holders a (weak_handles s)) s'"
      and sw: "shared_handles s' = shared_handles s" "weak_handles s' = weak_handles s"
      by blast
    from z have "(\<lambda>a. holders a (shared_handles s))(a := 1) = bump (Some a) (\<lambda>a. holders a (shared_handles s))"
      by (simp add: fun_eq_iff)
    with I n sw \<open>alloc = Some a\<close> show ?thesis
      by (simp add: shared_ptr_raw_deleter_def and_then_def)
  qed
qed

lemma make_shared_inv:
  assumes C: "consistent s"
  shows "case make_shared ctor args alloc s of
           Inl f \<Rightarrow> f = Not_executable
         | Inr (Threw e s1) \<Rightarrow>
             consistent s1 \<and> shared_handles s1 = shared_handles s
             \<and> weak_handles s1 = weak_handles s
         | Inr (Returned h s1) \<Rightarrow>
             inv_with (bump (cb h) (\<lambda>a. holders a (shared_handles s)))
               (\<lambda>a. holders a (weak_handles s)) s1
             \<and> shared_handles s1 = shared_handles s \<and> weak_handles s1 = weak_handles s"
proof (cases alloc)
  case None
  with C show ?thesis by (simp add: make_shared_def)
next
  case (Some a)
  show ?thesis
  proof (cases "heap s a")
    case (Some b)
    with \<open>alloc = Some a\<close> show ?thesis by (simp add: make_shared_def)
  next
    case None
    show ?thesis
    proof (cases "ctor args")
      case None
      with C \<open>alloc = Some a\<close> \<open>heap s a = None\<close> show ?thesis by (simp add: make_shared_def)
    next
      case (Some v)
      from consistentD [OF C] have "block_inv (\<lambda>a. holders a (shared_handles s))
        (\<lambda>a. holders a (weak_handles s)) s a" by (rule inv_withD)
      with None have z: "holders a (shared_handles s) = 0"
        unfolding block_inv_def by simp
      from new_block_inv [OF consistentD [OF C] None, of "Inplace_block (Some v)"] obtain s' where
        n: "new_block (Some a) (Inplace_block (Some v)) s = Inr (Returned a s')"
        and I: "inv_with ((\<lambda>a. holders a (shared_handles s))(a := 1)) (\<lambda>a. holders a (weak_handles s)) s'"
        and sw: "shared_handles s' = shared_handles s" "weak_handles s' = weak_handles s"
        by blast
      from z have "(\<lambda>a. holders a (shared_handles s))(a := 1) = bump (Some a) (\<lambda>a. holders a (shared_handles s))"
        by (simp add: fun_eq_iff)
      with I n sw \<open>alloc = Some a\<close> None Some show ?thesis
        by (simp add: make_shared_def and_then_def shared_ptr_inplace_def)
    qed
  qed
qed

lemma constructed_ok:
  assumes "case r of
           Inl f \<Rightarrow> f = Not_executable
         | Inr (Threw e s1) \<Rightarrow>
             consistent s1 \<and> shared_handles s1 = shared_handles s
             \<and> weak_handles s1 = weak_handles s
         | Inr (Returned h s1) \<Rightarrow>
             inv_with (bump (cb h) (\<lambda>a. holders a (shared_handles s)))
               (\<lambda>a. holders a (weak_handles s)) s1
             \<and> shared_handles s1 = shared_handles s \<and> weak_handles s1 = weak_handles s"
  shows "step_ok s (constructed r)"
proof (cases r)
  case (Inl f)
  with assms show ?thesis by (simp add: constructed_def and_then_def)
next
  case (Inr x)
  show ?thesis
  proof (cases x)
    case (Returned h s1)
    with assms Inr have I: "inv_with (bump (cb h) (\<lambda>a. holders a (shared_handles s1)))
               (\<lambda>a. holders a (weak_handles s1)) s1"
      and sw: "shared_handles s1 = shared_handles s" "weak_handles s1 = weak_handles s"
      by simp_all
    from new_shared_consistent [OF I] sw Inr Returned show ?thesis
      by (simp add: constructed_def and_then_def step_ok_def new_shared_def)
  next
    case (Threw e s1)
    with assms Inr show ?thesis
      by (simp add: constructed_def and_then_def step_ok_def)
  qed
qed

lemma swap_in_ok:
  assumes I: "inv_with (bump (cb tmp) (\<lambda>a. holders a (shared_handles s1)))
                (\<lambda>a. holders a (weak_handles s1)) s1"
    and len: "length (shared_handles s1) = length (shared_handles s)"
      "weak_handles s1 = weak_handles s"
  shows "step_ok s (swap_in this tmp s1)"
proof (cases "lookup (shared_handles s1) this")
  case (Inl f)
  with lookup_fault [OF Inl] show ?thesis by (simp add: swap_in_def and_then_def)
next
  case (Inr t)
  from swap_in_inv [OF I Inr] len show ?thesis
    by (auto simp: step_ok_def)
qed

lemma weak_swap_in_ok:
  assumes I: "inv_with (\<lambda>a. holders a (shared_handles s1))
                (bump (cb tmp) (\<lambda>a. holders a (weak_handles s1))) s1"
    and len: "length (weak_handles s1) = length (weak_handles s)"
      "shared_handles s1 = shared_handles s"
  shows "step_ok s (weak_swap_in this tmp s1)"
proof (cases "lookup (weak_handles s1) this")
  case (Inl f)
  with lookup_fault [OF Inl] show ?thesis by (simp add: weak_swap_in_def and_then_def)
next
  case (Inr t)
  from weak_swap_in_inv [OF I Inr] len show ?thesis
    by (auto simp: step_ok_def)
qed

lemma completed_ok:
  assumes "case r of
           Inl f \<Rightarrow> f = Not_executable
         | Inr (Threw e s1) \<Rightarrow>
             consistent s1 \<and> shared_handles s1 = shared_handles s
             \<and> weak_handles s1 = weak_handles s
         | Inr (Returned h s1) \<Rightarrow>
             inv_with (bump (cb h) (\<lambda>a. holders a (shared_handles s)))
               (\<lambda>a. holders a (weak_handles s)) s1
             \<and> shared_handles s1 = shared_handles s \<and> weak_handles s1 = weak_handles s"
  shows "step_ok s (completed (and_then r
       (\<lambda>r. case r of
          Threw e s1 \<Rightarrow> Inr (Threw e s1)
        | Returned tmp s1 \<Rightarrow> and_then (swap_in this tmp s1) (\<lambda>s2. Inr (Returned () s2)))))"
proof (cases r)
  case (Inl f)
  with assms show ?thesis by (simp add: completed_def and_then_def)
next
  case (Inr x)
  show ?thesis
  proof (cases x)
    case (Returned h s1)
    with assms Inr have I: "inv_with (bump (cb h) (\<lambda>a. holders a (shared_handles s1)))
               (\<lambda>a. holders a (weak_handles s1)) s1"
      and sw: "length (shared_handles s1) = length (shared_handles s)" "weak_handles s1 = weak_handles s"
      by simp_all
    from swap_in_ok [OF I sw, of this] Inr Returned show ?thesis
      by (cases "swap_in this h s1") (simp_all add: completed_def and_then_def step_ok_def)
  next
    case (Threw e s1)
    with assms Inr show ?thesis
      by (simp add: completed_def and_then_def step_ok_def)
  qed
qed

lemma shared_room:
  assumes "handle_objects s < 2 ^ 64 - 2"
  shows "holders a (shared_handles s) < 2 ^ 64 - 1"
proof -
  have "holders a (shared_handles s) \<le> handle_objects s"
    using holders_le [of a "shared_handles s"] by (simp add: handle_objects_def)
  with assms show ?thesis by simp
qed

lemma weak_room:
  assumes "handle_objects s < 2 ^ 64 - 2"
  shows "holders a (weak_handles s) < 2 ^ 64 - 2"
proof -
  have "holders a (weak_handles s) \<le> handle_objects s"
    using holders_le [of a "weak_handles s"] by (simp add: handle_objects_def)
  with assms show ?thesis by simp
qed

lemma copy_ok:
  assumes C: "consistent s" and B: "handle_objects s < 2 ^ 64 - 2"
    and oth: "lookup (shared_handles s) i = Inr oth"
  shows "step_ok s (and_then (shared_ptr_ptr_cb p (cb oth) s) (\<lambda>(h, s1). Inr (new_shared h s1)))"
proof -
  have "0 < holders a (shared_handles s) \<and> holders a (shared_handles s) < 2 ^ 64 - 1"
    if "cb oth = Some a" for a
    using holders_pos [OF oth that] shared_room [OF B] by simp
  from shared_ptr_ptr_cb_inv [OF consistentD [OF C] this, of "cb oth" p] obtain s1 where
    r: "shared_ptr_ptr_cb p (cb oth) s = Inr (\<lparr>ptr = p, cb = cb oth\<rparr>, s1)"
    and I: "inv_with (bump (cb oth) (\<lambda>a. holders a (shared_handles s))) (\<lambda>a. holders a (weak_handles s)) s1"
    and sw: "shared_handles s1 = shared_handles s" "weak_handles s1 = weak_handles s"
    by blast
  from I sw have "consistent (new_shared \<lparr>ptr = p, cb = cb oth\<rparr> s1)"
    by (intro new_shared_consistent) simp
  with r sw show ?thesis
    by (simp add: and_then_def step_ok_def new_shared_def)
qed

lemma move_ok:
  assumes C: "consistent s"
    and oth: "lookup (shared_handles s) i = Inr oth"
  shows "step_ok s (Inr (new_shared \<lparr>ptr = p, cb = cb oth\<rparr>
           (s\<lparr>shared_handles := (shared_handles s)[i := Some (oth\<lparr>cb := None, ptr := Nullptr\<rparr>)]\<rparr>)))"
proof -
  let ?s1 = "s\<lparr>shared_handles := (shared_handles s)[i := Some (oth\<lparr>cb := None, ptr := Nullptr\<rparr>)]\<rparr>"
  have pos: "0 < holders a (shared_handles s)" if "cb oth = Some a" for a
    using oth that by (rule holders_pos)
  have "bump (cb oth) (\<lambda>a. holders a (shared_handles ?s1)) = (\<lambda>a. holders a (shared_handles s))"
    using holders_fun_update [OF oth, of "oth\<lparr>cb := None, ptr := Nullptr\<rparr>"] bump_unbump [of "cb oth", OF pos]
    by simp
  with consistentD [OF C] have "consistent (new_shared \<lparr>ptr = p, cb = cb oth\<rparr> ?s1)"
    by (intro new_shared_consistent) simp
  then show ?thesis
    by (simp add: step_ok_def new_shared_def)
qed

lemma assign_copy_ok:
  assumes C: "consistent s" and B: "handle_objects s < 2 ^ 64 - 2"
  shows "step_ok s (assign_copy i j s)"
  unfolding assign_copy_def
proof (rule and_then_lookup_ok)
  fix oth assume oth: "lookup (shared_handles s) j = Inr oth"
  have "0 < holders a (shared_handles s) \<and> holders a (shared_handles s) < 2 ^ 64 - 1"
    if "cb oth = Some a" for a
    using holders_pos [OF oth that] shared_room [OF B] by simp
  from shared_ptr_ptr_cb_inv [OF consistentD [OF C] this, of "cb oth" "ptr oth"] obtain s1 where
    r: "shared_ptr_ptr_cb (ptr oth) (cb oth) s = Inr (\<lparr>ptr = ptr oth, cb = cb oth\<rparr>, s1)"
    and I: "inv_with (bump (cb oth) (\<lambda>a. holders a (shared_handles s))) (\<lambda>a. holders a (weak_handles s)) s1"
    and sw: "shared_handles s1 = shared_handles s" "weak_handles s1 = weak_handles s"
    by blast
  from I sw have "step_ok s (swap_in i \<lparr>ptr = ptr oth, cb = cb oth\<rparr> s1)"
    by (intro swap_in_ok) simp_all
  with r show "step_ok s (and_then (shared_ptr_copy oth s) (\<lambda>(tmp, s1). swap_in i tmp s1))"
    by (simp add: shared_ptr_copy_def shared_ptr_alias_copy_def and_then_def)
qed

lemma assign_move_ok:
  assumes C: "consistent s"
  shows "step_ok s (assign_move i j s)"
  unfolding assign_move_def
proof (rule and_then_lookup_ok)
  fix oth assume oth: "lookup (shared_handles s) j = Inr oth"
  let ?s1 = "s\<lparr>shared_handles := (shared_handles s)[j := Some (oth\<lparr>cb := None, ptr := Nullptr\<rparr>)]\<rparr>"
  have pos: "0 < holders a (shared_handles s)" if "cb oth = Some a" for a
    using oth that by (rule holders_pos)
  have "bump (cb oth) (\<lambda>a. holders a (shared_handles ?s1)) = (\<lambda>a. holders a (shared_handles s))"
    using holders_fun_update [OF oth, of "oth\<lparr>cb := None, ptr := Nullptr\<rparr>"] bump_unbump [of "cb oth", OF pos]
    by simp
  with consistentD [OF C] have "step_ok s (swap_in i \<lparr>ptr = ptr oth, cb = cb oth\<rparr> ?s1)"
    by (intro swap_in_ok) simp_all
  then show "step_ok s (case shared_ptr_move oth of
          (tmp, oth') \<Rightarrow>
            swap_in i tmp (s\<lparr>shared_handles := (shared_handles s)[j := Some oth']\<rparr>))"
    by (simp add: shared_ptr_move_def shared_ptr_alias_move_def)
qed

lemma reset_ok:
  assumes C: "consistent s"
  shows "step_ok s (reset i s)"
  unfolding reset_def using consistentD [OF C]
  by (intro swap_in_ok) (simp_all add: shared_ptr_default_def)

lemma holders_fun_swap:
  assumes t: "lookup xs i = Inr t" and oth: "lookup xs j = Inr oth"
  shows "(\<lambda>a. holders a (xs[i := Some (t\<lparr>ptr := ptr oth, cb := cb oth\<rparr>),
                              j := Some (oth\<lparr>ptr := ptr t, cb := cb t\<rparr>)]))
         = (\<lambda>a. holders a xs)"
proof (cases "i = j")
  case True
  with t oth have "t = oth" by simp
  moreover from oth have "xs[j := Some oth] = xs"
    by (metis list_update_id lookup_Inr)
  ultimately show ?thesis using True by simp
next
  case False
  let ?ys = "xs[i := Some (t\<lparr>ptr := ptr oth, cb := cb oth\<rparr>)]"
  from False t oth have oth': "lookup ?ys j = Inr oth"
    by (simp add: lookup_Inr)
  have post: "0 < holders a xs" if "cb t = Some a" for a
    using t that by (rule holders_pos)
  have poso: "0 < holders a xs" if "cb oth = Some a" for a
    using oth that by (rule holders_pos)
  have "(\<lambda>a. holders a (?ys[j := Some (oth\<lparr>ptr := ptr t, cb := cb t\<rparr>)]))
      = bump (cb t) (unbump (cb oth) (bump (cb oth) (unbump (cb t) (\<lambda>a. holders a xs))))"
    using holders_fun_update [OF oth', of "oth\<lparr>ptr := ptr t, cb := cb t\<rparr>"]
      holders_fun_update [OF t, of "t\<lparr>ptr := ptr oth, cb := cb oth\<rparr>"]
    by simp
  also have "\<dots> = (\<lambda>a. holders a xs)"
    using bump_unbump [of "cb t", OF post] by simp
  finally show ?thesis .
qed

lemma swap_handles_ok:
  assumes C: "consistent s"
  shows "step_ok s (swap_handles i j s)"
  unfolding swap_handles_def
proof (rule and_then_lookup_ok, rule and_then_lookup_ok)
  fix t oth
  assume t: "lookup (shared_handles s) i = Inr t" and oth: "lookup (shared_handles s) j = Inr oth"
  let ?s' = "s\<lparr>shared_handles := (shared_handles s)[i := Some (t\<lparr>ptr := ptr oth, cb := cb oth\<rparr>),
                              j := Some (oth\<lparr>ptr := ptr t, cb := cb t\<rparr>)]\<rparr>"
  from consistentD [OF C] have "consistent ?s'"
    by (intro consistentI [where cs = "\<lambda>a. holders a (shared_handles s)"
          and cw = "\<lambda>a. holders a (weak_handles s)"])
      (simp_all add: holders_fun_swap [OF t oth])
  then show "step_ok s (case swap t oth of
             (t', oth') \<Rightarrow>
               Inr (s\<lparr>shared_handles := (shared_handles s)[i := Some t', j := Some oth']\<rparr>))"
    by (simp add: swap_def step_ok_def)
qed

lemma destroy_ok:
  assumes C: "consistent s"
  shows "step_ok s (step s (Destroy i))"
  unfolding step.simps
proof (rule and_then_lookup_ok)
  fix h assume h: "lookup (shared_handles s) i = Inr h"
  have pos: "0 < holders a (shared_handles s)" if "cb h = Some a" for a
    using h that by (rule holders_pos)
  from shared_ptr_dtor_inv [OF consistentD [OF C], of h, OF pos] obtain s1 where
    d: "shared_ptr_dtor h s = Inr s1"
    and I: "inv_with (unbump (cb h) (\<lambda>a. holders a (shared_handles s))) (\<lambda>a. holders a (weak_handles s)) s1"
    and sw: "shared_handles s1 = shared_handles s" "weak_handles s1 = weak_handles s"
    by blast
  let ?s' = "s1\<lparr>shared_handles := (shared_handles s1)[i := None]\<rparr>"
  from I sw have "consistent ?s'"
    by (intro consistentI [OF _ _ refl, where cs = "unbump (cb h) (\<lambda>a. holders a (shared_handles s))"])
      (simp_all add: holders_fun_kill [OF h])
  with d sw show "step_ok s (and_then (shared_ptr_dtor h s)
          (\<lambda>s1. Inr (s1\<lparr>shared_handles := (shared_handles s1)[i := None]\<rparr>)))"
    by (simp add: and_then_def step_ok_def)
qed

lemma weak_copy_ok:
  assumes C: "consistent s" and B: "handle_objects s < 2 ^ 64 - 2"
    and held: "\<And>a. cb oth = Some a \<Longrightarrow>
       0 < holders a (shared_handles s) \<or> 0 < holders a (weak_handles s)"
  shows "\<exists>s1. weak_ptr_copy oth s = Inr (\<lparr>ptr = ptr oth, cb = cb oth\<rparr>, s1)
          \<and> inv_with (\<lambda>a. holders a (shared_handles s))
               (bump (cb oth) (\<lambda>a. holders a (weak_handles s))) s1
          \<and> shared_handles s1 = shared_handles s \<and> weak_handles s1 = weak_handles s"
proof -
  have "heap s a \<noteq> None \<and> holders a (weak_handles s) < 2 ^ 64 - 2" if "cb oth = Some a" for a
  proof -
    from held [OF that] have "heap s a \<noteq> None"
    proof
      assume "0 < holders a (shared_handles s)"
      with consistentD [OF C] obtain b where "heap s a = Some b"
        by (rule inv_with_allocated)
      then show ?thesis by simp
    next
      assume "0 < holders a (weak_handles s)"
      with consistentD [OF C] obtain b where "heap s a = Some b"
        by (rule inv_with_allocated_weak)
      then show ?thesis by simp
    qed
    with weak_room [OF B] show ?thesis by simp
  qed
  from weak_ptr_ptr_cb_inv [OF consistentD [OF C] this, of "cb oth" "ptr oth"]
  show ?thesis by (simp add: weak_ptr_copy_def)
qed

lemma weak_new_copy_ok:
  assumes C: "consistent s" and B: "handle_objects s < 2 ^ 64 - 2"
    and held: "\<And>a. cb oth = Some a \<Longrightarrow>
       0 < holders a (shared_handles s) \<or> 0 < holders a (weak_handles s)"
  shows "step_ok s (and_then (weak_ptr_copy oth s) (\<lambda>(h, s1). Inr (new_weak h s1)))"
proof -
  from weak_copy_ok [OF C B held] obtain s1 where
    r: "weak_ptr_copy oth s = Inr (\<lparr>ptr = ptr oth, cb = cb oth\<rparr>, s1)"
    and I: "inv_with (\<lambda>a. holders a (shared_handles s))
               (bump (cb oth) (\<lambda>a. holders a (weak_handles s))) s1"
    and sw: "shared_handles s1 = shared_handles s" "weak_handles s1 = weak_handles s"
    by blast
  from I sw have "consistent (new_weak \<lparr>ptr = ptr oth, cb = cb oth\<rparr> s1)"
    by (intro new_weak_consistent) simp
  with r sw show ?thesis
    by (simp add: and_then_def step_ok_def new_weak_def)
qed

lemma weak_assign_ok:
  assumes C: "consistent s" and B: "handle_objects s < 2 ^ 64 - 2"
    and held: "\<And>a. cb oth = Some a \<Longrightarrow>
       0 < holders a (shared_handles s) \<or> 0 < holders a (weak_handles s)"
  shows "step_ok s (and_then (weak_ptr_copy oth s) (\<lambda>(tmp, s1). weak_swap_in i tmp s1))"
proof -
  from weak_copy_ok [OF C B held] obtain s1 where
    r: "weak_ptr_copy oth s = Inr (\<lparr>ptr = ptr oth, cb = cb oth\<rparr>, s1)"
    and I: "inv_with (\<lambda>a. holders a (shared_handles s))
               (bump (cb oth) (\<lambda>a. holders a (weak_handles s))) s1"
    and sw: "shared_handles s1 = shared_handles s" "weak_handles s1 = weak_handles s"
    by blast
  from I sw have "step_ok s (weak_swap_in i \<lparr>ptr = ptr oth, cb = cb oth\<rparr> s1)"
    by (intro weak_swap_in_ok) simp_all
  with r show ?thesis by (simp add: and_then_def)
qed

lemma weak_move_ok:
  assumes C: "consistent s"
    and oth: "lookup (weak_handles s) i = Inr oth"
  shows "step_ok s (Inr (new_weak \<lparr>ptr = ptr oth, cb = cb oth\<rparr>
           (s\<lparr>weak_handles := (weak_handles s)[i := Some (oth\<lparr>ptr := Nullptr, cb := None\<rparr>)]\<rparr>)))"
proof -
  let ?s1 = "s\<lparr>weak_handles := (weak_handles s)[i := Some (oth\<lparr>ptr := Nullptr, cb := None\<rparr>)]\<rparr>"
  have pos: "0 < holders a (weak_handles s)" if "cb oth = Some a" for a
    using oth that by (rule holders_pos)
  have "bump (cb oth) (\<lambda>a. holders a (weak_handles ?s1)) = (\<lambda>a. holders a (weak_handles s))"
    using holders_fun_update [OF oth, of "oth\<lparr>ptr := Nullptr, cb := None\<rparr>"] bump_unbump [of "cb oth", OF pos]
    by simp
  with consistentD [OF C] have "consistent (new_weak \<lparr>ptr = ptr oth, cb = cb oth\<rparr> ?s1)"
    by (intro new_weak_consistent) simp
  then show ?thesis
    by (simp add: step_ok_def new_weak_def)
qed

lemma weak_assign_move_ok:
  assumes C: "consistent s"
  shows "step_ok s (weak_assign_move i j s)"
  unfolding weak_assign_move_def
proof (rule and_then_lookup_ok)
  fix oth assume oth: "lookup (weak_handles s) j = Inr oth"
  let ?s1 = "s\<lparr>weak_handles := (weak_handles s)[j := Some (oth\<lparr>ptr := Nullptr, cb := None\<rparr>)]\<rparr>"
  have pos: "0 < holders a (weak_handles s)" if "cb oth = Some a" for a
    using oth that by (rule holders_pos)
  have "bump (cb oth) (\<lambda>a. holders a (weak_handles ?s1)) = (\<lambda>a. holders a (weak_handles s))"
    using holders_fun_update [OF oth, of "oth\<lparr>ptr := Nullptr, cb := None\<rparr>"] bump_unbump [of "cb oth", OF pos]
    by simp
  with consistentD [OF C] have "step_ok s (weak_swap_in i \<lparr>ptr = ptr oth, cb = cb oth\<rparr> ?s1)"
    by (intro weak_swap_in_ok) simp_all
  then show "step_ok s (case weak_ptr_move oth of
          (tmp, oth') \<Rightarrow>
            weak_swap_in i tmp (s\<lparr>weak_handles := (weak_handles s)[j := Some oth']\<rparr>))"
    by (simp add: weak_ptr_move_def)
qed

lemma weak_reset_ok:
  assumes C: "consistent s"
  shows "step_ok s (weak_reset i s)"
  unfolding weak_reset_def using consistentD [OF C]
  by (intro weak_swap_in_ok) (simp_all add: weak_ptr_default_def)

lemma weak_swap_handles_ok:
  assumes C: "consistent s"
  shows "step_ok s (weak_swap_handles i j s)"
  unfolding weak_swap_handles_def
proof (rule and_then_lookup_ok, rule and_then_lookup_ok)
  fix t oth
  assume t: "lookup (weak_handles s) i = Inr t" and oth: "lookup (weak_handles s) j = Inr oth"
  let ?s' = "s\<lparr>weak_handles := (weak_handles s)[i := Some (t\<lparr>ptr := ptr oth, cb := cb oth\<rparr>),
                              j := Some (oth\<lparr>ptr := ptr t, cb := cb t\<rparr>)]\<rparr>"
  from consistentD [OF C] have "consistent ?s'"
    by (intro consistentI [where cs = "\<lambda>a. holders a (shared_handles s)"
          and cw = "\<lambda>a. holders a (weak_handles s)"])
      (simp_all add: holders_fun_swap [OF t oth])
  then show "step_ok s (case swap t oth of
             (t', oth') \<Rightarrow>
               Inr (s\<lparr>weak_handles := (weak_handles s)[i := Some t', j := Some oth']\<rparr>))"
    by (simp add: swap_def step_ok_def)
qed

lemma weak_destroy_ok:
  assumes C: "consistent s"
  shows "step_ok s (step s (Weak_destroy i))"
  unfolding step.simps
proof (rule and_then_lookup_ok)
  fix h assume h: "lookup (weak_handles s) i = Inr h"
  have pos: "0 < holders a (weak_handles s)" if "cb h = Some a" for a
    using h that by (rule holders_pos)
  from weak_ptr_dtor_inv [OF consistentD [OF C], of h, OF pos] obtain s1 where
    d: "weak_ptr_dtor h s = Inr s1"
    and I: "inv_with (\<lambda>a. holders a (shared_handles s)) (unbump (cb h) (\<lambda>a. holders a (weak_handles s))) s1"
    and sw: "shared_handles s1 = shared_handles s" "weak_handles s1 = weak_handles s"
    by blast
  let ?s' = "s1\<lparr>weak_handles := (weak_handles s1)[i := None]\<rparr>"
  from I sw have "consistent ?s'"
    by (intro consistentI [OF _ refl, where cw = "unbump (cb h) (\<lambda>a. holders a (weak_handles s))"])
      (simp_all add: holders_fun_kill [OF h])
  with d sw show "step_ok s (and_then (weak_ptr_dtor h s)
          (\<lambda>s1. Inr (s1\<lparr>weak_handles := (weak_handles s1)[i := None]\<rparr>)))"
    by (simp add: and_then_def step_ok_def)
qed

lemma lock_ok:
  assumes C: "consistent s" and B: "handle_objects s < 2 ^ 64 - 2"
    and w: "lookup (weak_handles s) i = Inr w"
  shows "step_ok s (and_then (lock w s) (\<lambda>(h, s1). Inr (new_shared h s1)))"
proof -
  have null: "step_ok s (Inr (new_shared shared_ptr_default s))"
    using consistentD [OF C]
    by (intro step_okI new_shared_consistent) (simp_all add: shared_ptr_default_def new_shared_def)
  show ?thesis
  proof (cases "cb w")
    case None
    with null show ?thesis by (simp add: lock_def and_then_def)
  next
    case (Some a)
    from consistentD [OF C] holders_pos [OF w Some] obtain b where b: "heap s a = Some b"
      by (rule inv_with_allocated_weak)
    show ?thesis
    proof (cases "strong_refs b = 0")
      case True
      with null Some b show ?thesis
        by (simp add: lock_def and_then_def get_strong_refs_def)
    next
      case False
      from consistentD [OF C] have "block_inv (\<lambda>a. holders a (shared_handles s))
          (\<lambda>a. holders a (weak_handles s)) s a" by (rule inv_withD)
      with b False have pos: "0 < holders a (shared_handles s)"
        unfolding block_inv_def by (simp add: word_zero_unat)
      have "0 < holders a' (shared_handles s) \<and> holders a' (shared_handles s) < 2 ^ 64 - 1"
        if "Some a = Some a'" for a'
        using that pos shared_room [OF B] by simp
      from shared_ptr_ptr_cb_inv [OF consistentD [OF C] this, of "Some a" "ptr w"] obtain s1 where
        r: "shared_ptr_ptr_cb (ptr w) (Some a) s = Inr (\<lparr>ptr = ptr w, cb = Some a\<rparr>, s1)"
        and I: "inv_with (bump (Some a) (\<lambda>a. holders a (shared_handles s))) (\<lambda>a. holders a (weak_handles s)) s1"
        and sw: "shared_handles s1 = shared_handles s" "weak_handles s1 = weak_handles s"
        by blast
      from I sw have "consistent (new_shared \<lparr>ptr = ptr w, cb = Some a\<rparr> s1)"
        by (intro new_shared_consistent) simp
      with r sw Some b False show ?thesis
        by (simp add: lock_def and_then_def get_strong_refs_def step_ok_def new_shared_def)
    qed
  qed
qed

lemma step_preserves:
  assumes C: "consistent s" and B: "handle_objects s < 2 ^ 64 - 2"
  shows "step_ok s (step s x)"
proof (cases x)
  case New_null
  from consistentD [OF C] show ?thesis unfolding New_null step.simps
    by (intro step_okI new_shared_consistent) (simp_all add: shared_ptr_default_def new_shared_def)
next
  case (New_raw p alloc)
  show ?thesis unfolding New_raw step.simps shared_ptr_raw_def
    by (rule constructed_ok) (rule raw_deleter_inv [OF C])
next
  case (New_raw_deleter p d alloc)
  show ?thesis unfolding New_raw_deleter step.simps
    by (rule constructed_ok) (rule raw_deleter_inv [OF C])
next
  case (Alias_copy i p)
  show ?thesis unfolding Alias_copy step.simps shared_ptr_alias_copy_def
    by (rule and_then_lookup_ok) (rule copy_ok [OF C B])
next
  case (Alias_move i p)
  show ?thesis unfolding Alias_move step.simps shared_ptr_alias_move_def prod.case
    by (rule and_then_lookup_ok) (rule move_ok [OF C])
next
  case (Copy i)
  show ?thesis unfolding Copy step.simps shared_ptr_copy_def shared_ptr_alias_copy_def
    by (rule and_then_lookup_ok) (rule copy_ok [OF C B])
next
  case (Move i)
  show ?thesis
    unfolding Move step.simps shared_ptr_move_def shared_ptr_alias_move_def prod.case
    by (rule and_then_lookup_ok) (rule move_ok [OF C])
next
  case (Assign_copy i j)
  then show ?thesis by (simp add: assign_copy_ok [OF C B])
next
  case (Assign_move i j)
  then show ?thesis by (simp add: assign_move_ok [OF C])
next
  case (Reset i)
  then show ?thesis by (simp add: reset_ok [OF C])
next
  case (Reset_raw i p alloc)
  show ?thesis unfolding Reset_raw step.simps reset_raw_def shared_ptr_raw_def
    by (rule completed_ok) (rule raw_deleter_inv [OF C])
next
  case (Reset_raw_deleter i p d alloc)
  show ?thesis unfolding Reset_raw_deleter step.simps reset_raw_deleter_def
    by (rule completed_ok) (rule raw_deleter_inv [OF C])
next
  case (Swap i j)
  then show ?thesis by (simp add: swap_handles_ok [OF C])
next
  case (Destroy i)
  then show ?thesis using destroy_ok [OF C] by simp
next
  case (Make_shared ctor args alloc)
  show ?thesis unfolding Make_shared step.simps
    by (rule constructed_ok) (rule make_shared_inv [OF C])
next
  case Weak_null
  from consistentD [OF C] show ?thesis unfolding Weak_null step.simps
    by (intro step_okI new_weak_consistent) (simp_all add: weak_ptr_default_def new_weak_def)
next
  case (Weak_from_shared i)
  show ?thesis unfolding Weak_from_shared step.simps
    by (rule and_then_lookup_ok, rule weak_new_copy_ok [OF C B]) (simp add: holders_pos)
next
  case (Weak_copy i)
  show ?thesis unfolding Weak_copy step.simps
    by (rule and_then_lookup_ok, rule weak_new_copy_ok [OF C B]) (simp add: holders_pos)
next
  case (Weak_move i)
  show ?thesis unfolding Weak_move step.simps weak_ptr_move_def prod.case
    by (rule and_then_lookup_ok) (rule weak_move_ok [OF C])
next
  case (Weak_assign_shared i j)
  show ?thesis unfolding Weak_assign_shared step.simps weak_assign_shared_def
    by (rule and_then_lookup_ok, rule weak_assign_ok [OF C B]) (simp add: holders_pos)
next
  case (Weak_assign_copy i j)
  show ?thesis unfolding Weak_assign_copy step.simps weak_assign_copy_def
    by (rule and_then_lookup_ok, rule weak_assign_ok [OF C B]) (simp add: holders_pos)
next
  case (Weak_assign_move i j)
  then show ?thesis by (simp add: weak_assign_move_ok [OF C])
next
  case (Lock i)
  show ?thesis unfolding Lock step.simps
    by (rule and_then_lookup_ok) (rule lock_ok [OF C B])
next
  case (Weak_reset i)
  then show ?thesis by (simp add: weak_reset_ok [OF C])
next
  case (Weak_swap i j)
  then show ?thesis by (simp add: weak_swap_handles_ok [OF C])
next
  case (Weak_destroy i)
  then show ?thesis using weak_destroy_ok [OF C] by simp
qed

section \<open>The invariant along a program\<close>

lemma and_then_Inr: "and_then r f = Inr y \<longleftrightarrow> (\<exists>x. r = Inr x \<and> f x = Inr y)"
  by (cases r) (simp_all add: and_then_def)

lemma add_strong_ref_handles: "add_strong_ref a s = Inr s' \<Longrightarrow> same_handles s s'"
  by (auto simp: add_strong_ref_def same_handles_def split: option.splits)

lemma add_weak_ref_handles: "add_weak_ref a s = Inr s' \<Longrightarrow> same_handles s s'"
  by (auto simp: add_weak_ref_def same_handles_def split: option.splits)

lemma release_weak_ref_handles: "release_weak_ref a s = Inr s' \<Longrightarrow> same_handles s s'"
  by (auto simp: release_weak_ref_def same_handles_def Let_def split: option.splits if_splits)

lemma delete_data_handles: "delete_data a s = Inr s' \<Longrightarrow> same_handles s s'"
  by (auto simp: delete_data_def same_handles_def split: option.splits block_kind.splits)

lemma release_strong_ref_handles: "release_strong_ref a s = Inr s' \<Longrightarrow> same_handles s s'"
  by (auto simp: release_strong_ref_def Let_def and_then_Inr same_handles_def
      split: option.splits if_splits
      dest!: delete_data_handles release_weak_ref_handles)

lemma shared_ptr_dtor_handles: "shared_ptr_dtor h s = Inr s' \<Longrightarrow> same_handles s s'"
  by (auto simp: shared_ptr_dtor_def same_handles_def split: option.splits
      dest!: release_strong_ref_handles)

lemma weak_ptr_dtor_handles: "weak_ptr_dtor h s = Inr s' \<Longrightarrow> same_handles s s'"
  by (auto simp: weak_ptr_dtor_def same_handles_def split: option.splits
      dest!: release_weak_ref_handles)

lemma shared_ptr_ptr_cb_handles: "shared_ptr_ptr_cb p c s = Inr (h, s') \<Longrightarrow> same_handles s s'"
  by (auto simp: shared_ptr_ptr_cb_def and_then_Inr same_handles_def split: option.splits
      dest!: add_strong_ref_handles)

lemma weak_ptr_ptr_cb_handles: "weak_ptr_ptr_cb p c s = Inr (h, s') \<Longrightarrow> same_handles s s'"
  by (auto simp: weak_ptr_ptr_cb_def and_then_Inr same_handles_def split: option.splits
      dest!: add_weak_ref_handles)

lemma lock_handles: "lock w s = Inr (h, s') \<Longrightarrow> same_handles s s'"
  by (auto simp: lock_def and_then_Inr split: option.splits if_splits
      dest: shared_ptr_ptr_cb_handles) (simp_all add: same_handles_def)

lemma raw_deleter_handles:
  "shared_ptr_raw_deleter p d alloc s = Inr r \<Longrightarrow>
     (case r of Returned h s' \<Rightarrow> same_handles s s' | Threw e s' \<Rightarrow> same_handles s s')"
  by (auto simp: shared_ptr_raw_deleter_def new_block_def and_then_Inr same_handles_def
      split: option.splits if_splits outcome.splits)

lemma make_shared_handles:
  "make_shared ctor args alloc s = Inr r \<Longrightarrow>
     (case r of Returned h s' \<Rightarrow> same_handles s s' | Threw e s' \<Rightarrow> same_handles s s')"
  by (auto simp: make_shared_def new_block_def and_then_Inr same_handles_def
      split: option.splits if_splits outcome.splits)

lemma swap_in_grown: "swap_in i tmp s = Inr s' \<Longrightarrow> grown s s'"
  by (auto simp: swap_in_def and_then_Inr swap_def grown_def same_handles_def
      dest!: shared_ptr_dtor_handles)

lemma weak_swap_in_grown: "weak_swap_in i tmp s = Inr s' \<Longrightarrow> grown s s'"
  by (auto simp: weak_swap_in_def and_then_Inr swap_def grown_def same_handles_def
      dest!: weak_ptr_dtor_handles)

lemma constructed_grown:
  assumes "constructed r = Inr s'"
    and "\<And>x. r = Inr x \<Longrightarrow>
       (case x of Returned h s1 \<Rightarrow> same_handles s s1 | Threw e s1 \<Rightarrow> same_handles s s1)"
  shows "grown s s'"
proof -
  from assms(1) obtain x where r: "r = Inr x"
    by (auto simp: constructed_def and_then_Inr)
  show ?thesis
  proof (cases x)
    case (Returned h s1)
    with assms(1) assms(2) [OF r] r show ?thesis
      by (auto simp: constructed_def and_then_def new_shared_def grown_def same_handles_def)
  next
    case (Threw e s1)
    with assms(1) assms(2) [OF r] r show ?thesis
      by (auto simp: constructed_def and_then_def grown_def same_handles_def)
  qed
qed

lemma completed_grown:
  assumes "completed (and_then r
       (\<lambda>r. case r of
          Threw e s1 \<Rightarrow> Inr (Threw e s1)
        | Returned tmp s1 \<Rightarrow> and_then (swap_in this tmp s1) (\<lambda>s2. Inr (Returned () s2)))) = Inr s'"
    and "\<And>x. r = Inr x \<Longrightarrow>
       (case x of Returned h s1 \<Rightarrow> same_handles s s1 | Threw e s1 \<Rightarrow> same_handles s s1)"
  shows "grown s s'"
proof -
  from assms(1) obtain x where r: "r = Inr x"
    by (auto simp: completed_def and_then_Inr)
  show ?thesis
  proof (cases x)
    case (Returned h s1)
    with assms(1) r have "swap_in this h s1 = Inr s'"
      by (auto simp: completed_def and_then_Inr)
    from swap_in_grown [OF this] assms(2) [OF r] Returned show ?thesis
      by (simp add: grown_def same_handles_def)
  next
    case (Threw e s1)
    with assms(1) assms(2) [OF r] r show ?thesis
      by (auto simp: completed_def and_then_def grown_def same_handles_def)
  qed
qed

lemma step_grown: "step s x = Inr s' \<Longrightarrow> grown s s'"
proof (cases x)
  case (New_raw p alloc)
  then show "step s x = Inr s' \<Longrightarrow> grown s s'"
    by (auto simp: shared_ptr_raw_def elim!: constructed_grown dest: raw_deleter_handles)
next
  case (New_raw_deleter p d alloc)
  then show "step s x = Inr s' \<Longrightarrow> grown s s'"
    by (auto elim!: constructed_grown dest: raw_deleter_handles)
next
  case (Make_shared ctor args alloc)
  then show "step s x = Inr s' \<Longrightarrow> grown s s'"
    by (auto elim!: constructed_grown dest: make_shared_handles)
next
  case (Reset_raw i p alloc)
  then show "step s x = Inr s' \<Longrightarrow> grown s s'"
    by (auto simp: reset_raw_def shared_ptr_raw_def elim!: completed_grown dest: raw_deleter_handles)
next
  case (Reset_raw_deleter i p d alloc)
  then show "step s x = Inr s' \<Longrightarrow> grown s s'"
    by (auto simp: reset_raw_deleter_def elim!: completed_grown dest: raw_deleter_handles)
qed (auto simp: and_then_Inr new_shared_def new_weak_def grown_def same_handles_def
    shared_ptr_alias_copy_def shared_ptr_alias_move_def shared_ptr_copy_def shared_ptr_move_def
    assign_copy_def assign_move_def reset_def swap_handles_def swap_def
    weak_ptr_copy_def weak_ptr_move_def weak_assign_shared_def weak_assign_copy_def
    weak_assign_move_def weak_reset_def weak_swap_handles_def
    dest!: shared_ptr_ptr_cb_handles weak_ptr_ptr_cb_handles swap_in_grown weak_swap_in_grown
      shared_ptr_dtor_handles weak_ptr_dtor_handles lock_handles)

lemma run_grown: "run s ops = Inr s' \<Longrightarrow> grown s s'"
proof (induction ops arbitrary: s)
  case Nil
  then show ?case by (simp add: grown_def)
next
  case (Cons x xs)
  from Cons.prems obtain s1 where 1: "step s x = Inr s1" and 2: "run s1 xs = Inr s'"
    by (auto simp: and_then_Inr)
  from step_grown [OF 1] Cons.IH [OF 2] show ?case by (simp add: grown_def)
qed

lemma run_preserves:
  assumes "consistent s" and "run s ops = Inr s'" and "handle_objects s' < 2 ^ 64 - 2"
  shows "consistent s'"
  using assms
proof (induction ops arbitrary: s)
  case Nil
  then show ?case by simp
next
  case (Cons x xs)
  from Cons.prems(2) obtain s1 where 1: "step s x = Inr s1" and 2: "run s1 xs = Inr s'"
    by (auto simp: and_then_Inr)
  from step_grown [OF 1] run_grown [OF 2] Cons.prems(3)
  have "handle_objects s < 2 ^ 64 - 2"
    by (simp add: grown_def handle_objects_def)
  from step_preserves [OF Cons.prems(1) this, of x] 1 have "consistent s1"
    by (simp add: step_ok_def)
  from Cons.IH [OF this 2 Cons.prems(3)] show ?case .
qed

lemma consistent_init: "consistent init"
  by (simp add: consistent_def inv_with_def block_inv_def init_def holders_def phase_of_def)

lemma same_handles_one_more: "same_handles s s' \<Longrightarrow> one_more s s'"
  by (simp add: same_handles_def one_more_def handle_objects_def)

lemma swap_in_one_more: "swap_in i tmp s = Inr s' \<Longrightarrow> handle_objects s' = handle_objects s"
  by (auto simp: swap_in_def and_then_Inr swap_def handle_objects_def same_handles_def
      dest!: shared_ptr_dtor_handles)

lemma weak_swap_in_one_more:
  "weak_swap_in i tmp s = Inr s' \<Longrightarrow> handle_objects s' = handle_objects s"
  by (auto simp: weak_swap_in_def and_then_Inr swap_def handle_objects_def same_handles_def
      dest!: weak_ptr_dtor_handles)

lemma constructed_one_more:
  assumes "constructed r = Inr s'"
    and "\<And>x. r = Inr x \<Longrightarrow>
       (case x of Returned h s1 \<Rightarrow> same_handles s s1 | Threw e s1 \<Rightarrow> same_handles s s1)"
  shows "one_more s s'"
proof -
  from assms(1) obtain x where r: "r = Inr x"
    by (auto simp: constructed_def and_then_Inr)
  show ?thesis
  proof (cases x)
    case (Returned h s1)
    with assms(1) assms(2) [OF r] r show ?thesis
      by (auto simp: constructed_def and_then_def new_shared_def one_more_def
          handle_objects_def same_handles_def)
  next
    case (Threw e s1)
    with assms(1) assms(2) [OF r] r show ?thesis
      by (auto simp: constructed_def and_then_def one_more_def handle_objects_def
          same_handles_def)
  qed
qed

lemma completed_one_more:
  assumes "completed (and_then r
       (\<lambda>r. case r of
          Threw e s1 \<Rightarrow> Inr (Threw e s1)
        | Returned tmp s1 \<Rightarrow> and_then (swap_in this tmp s1) (\<lambda>s2. Inr (Returned () s2)))) = Inr s'"
    and "\<And>x. r = Inr x \<Longrightarrow>
       (case x of Returned h s1 \<Rightarrow> same_handles s s1 | Threw e s1 \<Rightarrow> same_handles s s1)"
  shows "one_more s s'"
proof -
  from assms(1) obtain x where r: "r = Inr x"
    by (auto simp: completed_def and_then_Inr)
  show ?thesis
  proof (cases x)
    case (Returned h s1)
    with assms(1) r have "swap_in this h s1 = Inr s'"
      by (auto simp: completed_def and_then_Inr)
    from swap_in_one_more [OF this] assms(2) [OF r] Returned show ?thesis
      by (simp add: one_more_def handle_objects_def same_handles_def)
  next
    case (Threw e s1)
    with assms(1) assms(2) [OF r] r show ?thesis
      by (auto simp: completed_def and_then_def one_more_def handle_objects_def
          same_handles_def)
  qed
qed

lemma step_one_more: "step s x = Inr s' \<Longrightarrow> one_more s s'"
proof (cases x)
  case (New_raw p alloc)
  then show "step s x = Inr s' \<Longrightarrow> one_more s s'"
    by (auto simp: shared_ptr_raw_def elim!: constructed_one_more dest: raw_deleter_handles)
next
  case (New_raw_deleter p d alloc)
  then show "step s x = Inr s' \<Longrightarrow> one_more s s'"
    by (auto elim!: constructed_one_more dest: raw_deleter_handles)
next
  case (Make_shared ctor args alloc)
  then show "step s x = Inr s' \<Longrightarrow> one_more s s'"
    by (auto elim!: constructed_one_more dest: make_shared_handles)
next
  case (Reset_raw i p alloc)
  then show "step s x = Inr s' \<Longrightarrow> one_more s s'"
    by (auto simp: reset_raw_def shared_ptr_raw_def elim!: completed_one_more
        dest: raw_deleter_handles)
next
  case (Reset_raw_deleter i p d alloc)
  then show "step s x = Inr s' \<Longrightarrow> one_more s s'"
    by (auto simp: reset_raw_deleter_def elim!: completed_one_more dest: raw_deleter_handles)
qed (auto simp: and_then_Inr new_shared_def new_weak_def one_more_def handle_objects_def
    same_handles_def
    shared_ptr_alias_copy_def shared_ptr_alias_move_def shared_ptr_copy_def shared_ptr_move_def
    assign_copy_def assign_move_def reset_def swap_handles_def swap_def
    weak_ptr_copy_def weak_ptr_move_def weak_assign_shared_def weak_assign_copy_def
    weak_assign_move_def weak_reset_def weak_swap_handles_def
    dest!: shared_ptr_ptr_cb_handles weak_ptr_ptr_cb_handles swap_in_one_more
      weak_swap_in_one_more shared_ptr_dtor_handles weak_ptr_dtor_handles lock_handles)

lemma run_safe:
  assumes "consistent s" and "handle_objects s + length ops < 2 ^ 64 - 2"
  shows "run s ops \<noteq> Inl Dangling_block"
  using assms
proof (induction ops arbitrary: s)
  case Nil
  then show ?case by simp
next
  case (Cons x xs)
  from Cons.prems(2) have B: "handle_objects s < 2 ^ 64 - 2" by simp
  show ?case
  proof (cases "step s x")
    case (Inl f)
    with step_preserves [OF Cons.prems(1) B, of x] show ?thesis
      by (simp add: step_ok_def and_then_def)
  next
    case (Inr s1)
    with step_preserves [OF Cons.prems(1) B, of x] have C1: "consistent s1"
      by (simp add: step_ok_def)
    from step_one_more [OF Inr] Cons.prems(2)
    have "handle_objects s1 + length xs < 2 ^ 64 - 2"
      by (simp add: one_more_def)
    from Cons.IH [OF C1 this] Inr show ?thesis by (simp add: and_then_def)
  qed
qed

section \<open>The trace and the counters\<close>

lemma phase_tally:
  "(case phase_of a tr of
      Unallocated \<Rightarrow>
        count_list tr (Block_created a) = 0 \<and> count_list tr (Delete_data a) = 0
        \<and> count_list tr (Deallocate a) = 0
    | Alive \<Rightarrow>
        count_list tr (Block_created a) = Suc (count_list tr (Deallocate a))
        \<and> count_list tr (Delete_data a) = count_list tr (Deallocate a)
    | Expired \<Rightarrow>
        count_list tr (Block_created a) = Suc (count_list tr (Deallocate a))
        \<and> count_list tr (Delete_data a) = Suc (count_list tr (Deallocate a))
    | Freed \<Rightarrow>
        count_list tr (Block_created a) = count_list tr (Deallocate a)
        \<and> count_list tr (Delete_data a) = count_list tr (Deallocate a)
        \<and> 0 < count_list tr (Block_created a)
    | Broken \<Rightarrow> True)"
proof (induction tr rule: rev_induct)
  case Nil
  then show ?case by (simp add: phase_of_def)
next
  case (snoc e tr)
  then show ?case
    by (cases e; cases "phase_of a tr") (auto simp: phase_of_snoc)
qed

lemma release_strong_ref_trace:
  assumes "heap s a = Some b"
  shows "\<exists>s'. release_strong_ref a s = Inr s'
     \<and> filter (\<lambda>e. e = Delete_data a \<or> e = Deallocate a) (drop (length (trace s)) (trace s'))
         = (if strong_refs b = 1
            then Delete_data a # (if weak_refs b = 1 then [Deallocate a] else [])
            else [])"
  using assms
  by (cases "kind b")
    (auto simp: release_strong_ref_def delete_data_def release_weak_ref_def and_then_def Let_def)

lemma release_weak_ref_trace:
  assumes "heap s a = Some b"
  shows "\<exists>s'. release_weak_ref a s = Inr s'
     \<and> trace s' = trace s @ (if weak_refs b = 1 then [Deallocate a] else [])"
  using assms
  by (auto simp: release_weak_ref_def Let_def)

section \<open>Tidy handles\<close>

lemma tidy_all_iff: "tidy_all xs \<longleftrightarrow> (\<forall>h. Some h \<in> set xs \<longrightarrow> tidy h)"
  by (auto simp: tidy_all_def list_all_iff split: option.splits)

lemma tidy_all_append [simp]: "tidy_all (xs @ [Some h]) \<longleftrightarrow> tidy_all xs \<and> tidy h"
  by (simp add: tidy_all_def)

lemma tidy_all_update: "tidy_all xs \<Longrightarrow> tidy h \<Longrightarrow> tidy_all (xs[i := Some h])"
  unfolding tidy_all_iff by (auto dest!: subsetD [OF set_update_subset_insert])

lemma tidy_all_kill: "tidy_all xs \<Longrightarrow> tidy_all (xs[i := None])"
  unfolding tidy_all_iff by (auto dest!: subsetD [OF set_update_subset_insert])

lemma tidy_lookup: "tidy_all xs \<Longrightarrow> lookup xs i = Inr h \<Longrightarrow> tidy h"
  unfolding tidy_all_iff by (auto simp: lookup_Inr dest: nth_mem)

lemma tidy_simps [simp]:
  "tidy \<lparr>ptr = p, cb = Some a\<rparr>"
  "tidy \<lparr>ptr = Nullptr, cb = c\<rparr>"
  "tidy (h\<lparr>ptr := Nullptr, cb := None\<rparr>)"
  "tidy (h\<lparr>cb := None, ptr := Nullptr\<rparr>)"
  "tidy (h\<lparr>ptr := ptr t, cb := cb t\<rparr>) = tidy t"
  "tidy \<lparr>ptr = ptr t, cb = cb t\<rparr> = tidy t"
  by (simp_all add: tidy_def)

lemma shared_ptr_ptr_cb_result:
  "shared_ptr_ptr_cb p c s = Inr (h, s') \<Longrightarrow> h = \<lparr>ptr = p, cb = c\<rparr> \<and> same_handles s s'"
  by (auto simp: shared_ptr_ptr_cb_def and_then_Inr same_handles_def split: option.splits
      dest!: add_strong_ref_handles)

lemma weak_ptr_ptr_cb_result:
  "weak_ptr_ptr_cb p c s = Inr (h, s') \<Longrightarrow> h = \<lparr>ptr = p, cb = c\<rparr> \<and> same_handles s s'"
  by (auto simp: weak_ptr_ptr_cb_def and_then_Inr same_handles_def split: option.splits
      dest!: add_weak_ref_handles)

lemma lock_result_handle:
  "lock w s = Inr (h, s') \<Longrightarrow> tidy h \<and> same_handles s s'"
  by (auto simp: lock_def and_then_Inr shared_ptr_default_def split: option.splits if_splits
      dest!: shared_ptr_ptr_cb_result) (simp_all add: same_handles_def)

lemma raw_deleter_result:
  "shared_ptr_raw_deleter p d alloc s = Inr r \<Longrightarrow>
     (case r of Returned h s' \<Rightarrow> tidy h \<and> same_handles s s' | Threw e s' \<Rightarrow> same_handles s s')"
  by (auto simp: shared_ptr_raw_deleter_def new_block_def and_then_Inr same_handles_def
      split: option.splits if_splits outcome.splits)

lemma make_shared_result_handle:
  "make_shared ctor args alloc s = Inr r \<Longrightarrow>
     (case r of Returned h s' \<Rightarrow> tidy h \<and> same_handles s s' | Threw e s' \<Rightarrow> same_handles s s')"
  by (auto simp: make_shared_def new_block_def and_then_Inr same_handles_def shared_ptr_inplace_def
      split: option.splits if_splits outcome.splits)

lemma swap_in_tidy:
  assumes "swap_in i tmp s = Inr s'" and "tidy_state s" and "tidy tmp"
  shows "tidy_state s'"
  using assms
  by (auto simp: swap_in_def and_then_Inr swap_def tidy_state_def same_handles_def
      dest!: shared_ptr_dtor_handles intro!: tidy_all_update)

lemma weak_swap_in_tidy:
  assumes "weak_swap_in i tmp s = Inr s'" and "tidy_state s" and "tidy tmp"
  shows "tidy_state s'"
  using assms
  by (auto simp: weak_swap_in_def and_then_Inr swap_def tidy_state_def same_handles_def
      dest!: weak_ptr_dtor_handles intro!: tidy_all_update)

lemma swap_in_tidy_after:
  assumes "swap_in i tmp s1 = Inr s'" and "same_handles s s1" and "tidy_state s" and "tidy tmp"
  shows "tidy_state s'"
proof -
  from assms(2,3) have "tidy_state s1" by (simp add: tidy_state_def same_handles_def)
  with assms(1) show ?thesis using assms(4) by (rule swap_in_tidy)
qed

lemma weak_swap_in_tidy_after:
  assumes "weak_swap_in i tmp s1 = Inr s'" and "same_handles s s1" and "tidy_state s" and "tidy tmp"
  shows "tidy_state s'"
proof -
  from assms(2,3) have "tidy_state s1" by (simp add: tidy_state_def same_handles_def)
  with assms(1) show ?thesis using assms(4) by (rule weak_swap_in_tidy)
qed

lemma tidy_state_lookup:
  "tidy_state s \<Longrightarrow> lookup (shared_handles s) i = Inr h \<Longrightarrow> tidy h"
  "tidy_state s \<Longrightarrow> lookup (weak_handles s) i = Inr h \<Longrightarrow> tidy h"
  by (auto simp: tidy_state_def dest: tidy_lookup)

lemma tidy_state_moved:
  "tidy_state s \<Longrightarrow>
     tidy_state (s\<lparr>shared_handles := (shared_handles s)[j := Some (h\<lparr>cb := None, ptr := Nullptr\<rparr>)]\<rparr>)"
  "tidy_state s \<Longrightarrow>
     tidy_state (s\<lparr>weak_handles := (weak_handles s)[j := Some (h\<lparr>ptr := Nullptr, cb := None\<rparr>)]\<rparr>)"
  by (auto simp: tidy_state_def intro!: tidy_all_update)

lemma constructed_tidy:
  assumes "constructed r = Inr s'" and "tidy_state s"
    and "\<And>x. r = Inr x \<Longrightarrow>
       (case x of Returned h s1 \<Rightarrow> tidy h \<and> same_handles s s1 | Threw e s1 \<Rightarrow> same_handles s s1)"
  shows "tidy_state s'"
proof -
  from assms(1) obtain x where r: "r = Inr x"
    by (auto simp: constructed_def and_then_Inr)
  show ?thesis
  proof (cases x)
    case (Returned h s1)
    with assms(1,2) assms(3) [OF r] r show ?thesis
      by (auto simp: constructed_def and_then_def new_shared_def tidy_state_def same_handles_def)
  next
    case (Threw e s1)
    with assms(1,2) assms(3) [OF r] r show ?thesis
      by (auto simp: constructed_def and_then_def tidy_state_def same_handles_def)
  qed
qed

lemma completed_tidy:
  assumes "completed (and_then r
       (\<lambda>r. case r of
          Threw e s1 \<Rightarrow> Inr (Threw e s1)
        | Returned tmp s1 \<Rightarrow> and_then (swap_in this tmp s1) (\<lambda>s2. Inr (Returned () s2)))) = Inr s'"
    and "tidy_state s"
    and "\<And>x. r = Inr x \<Longrightarrow>
       (case x of Returned h s1 \<Rightarrow> tidy h \<and> same_handles s s1 | Threw e s1 \<Rightarrow> same_handles s s1)"
  shows "tidy_state s'"
proof -
  from assms(1) obtain x where r: "r = Inr x"
    by (auto simp: completed_def and_then_Inr)
  show ?thesis
  proof (cases x)
    case (Returned h s1)
    with assms(1) r have sw: "swap_in this h s1 = Inr s'"
      by (auto simp: completed_def and_then_Inr)
    from assms(2) assms(3) [OF r] Returned have "tidy_state s1" "tidy h"
      by (simp_all add: tidy_state_def same_handles_def)
    with sw show ?thesis by (rule swap_in_tidy)
  next
    case (Threw e s1)
    with assms(1,2) assms(3) [OF r] r show ?thesis
      by (auto simp: completed_def and_then_def tidy_state_def same_handles_def)
  qed
qed

lemma step_tidy:
  assumes "step s x = Inr s'" and "tidy_state s" and "\<not> aliases_null_block s x"
  shows "tidy_state s'"
proof (cases x)
  case (New_raw p alloc)
  with assms show ?thesis
    by (auto simp: shared_ptr_raw_def elim!: constructed_tidy dest: raw_deleter_result)
next
  case (New_raw_deleter p d alloc)
  with assms show ?thesis
    by (auto elim!: constructed_tidy dest: raw_deleter_result)
next
  case (Make_shared ctor args alloc)
  with assms show ?thesis
    by (auto elim!: constructed_tidy dest: make_shared_result_handle)
next
  case (Reset_raw i p alloc)
  with assms show ?thesis
    by (auto simp: reset_raw_def shared_ptr_raw_def elim!: completed_tidy dest: raw_deleter_result)
next
  case (Reset_raw_deleter i p d alloc)
  with assms show ?thesis
    by (auto simp: reset_raw_deleter_def elim!: completed_tidy dest: raw_deleter_result)
next
  case (Alias_copy i p)
  with assms show ?thesis
    by (auto simp: and_then_Inr new_shared_def tidy_state_def same_handles_def tidy_def
        shared_ptr_alias_copy_def dest!: shared_ptr_ptr_cb_result)
next
  case (Alias_move i p)
  with assms show ?thesis
    by (auto simp: and_then_Inr new_shared_def tidy_state_def tidy_def
        shared_ptr_alias_move_def intro!: tidy_all_update)
next
  case (Copy i)
  with assms show ?thesis
    by (auto simp: and_then_Inr new_shared_def tidy_state_def same_handles_def
        shared_ptr_copy_def shared_ptr_alias_copy_def dest!: shared_ptr_ptr_cb_result
        dest: tidy_lookup)
next
  case (Move i)
  with assms show ?thesis
    by (auto simp: and_then_Inr new_shared_def tidy_state_def
        shared_ptr_move_def shared_ptr_alias_move_def intro!: tidy_all_update dest: tidy_lookup)
next
  case (Assign_copy i j)
  with assms show ?thesis
    by (auto simp: and_then_Inr assign_copy_def shared_ptr_copy_def shared_ptr_alias_copy_def
        dest!: shared_ptr_ptr_cb_result elim!: swap_in_tidy_after dest: tidy_state_lookup)
next
  case (Assign_move i j)
  with assms show ?thesis
    by (auto simp: and_then_Inr assign_move_def shared_ptr_move_def shared_ptr_alias_move_def
        elim!: swap_in_tidy intro!: tidy_state_moved dest: tidy_state_lookup)
next
  case (Reset i)
  with assms show ?thesis
    by (auto simp: reset_def shared_ptr_default_def elim!: swap_in_tidy)
next
  case (Swap i j)
  with assms(1) obtain t oth where t: "lookup (shared_handles s) i = Inr t"
    and oth: "lookup (shared_handles s) j = Inr oth"
    and s': "s' = s\<lparr>shared_handles := (shared_handles s)
        [i := Some (t\<lparr>ptr := ptr oth, cb := cb oth\<rparr>),
         j := Some (oth\<lparr>ptr := ptr t, cb := cb t\<rparr>)]\<rparr>"
    by (auto simp: and_then_Inr swap_handles_def swap_def)
  from assms(2) t oth have "tidy t" "tidy oth"
    by (auto dest: tidy_state_lookup)
  with assms(2) s' show ?thesis
    by (auto simp: tidy_state_def intro!: tidy_all_update)
next
  case (Destroy i)
  with assms show ?thesis
    by (auto simp: and_then_Inr tidy_state_def same_handles_def
        intro!: tidy_all_kill dest!: shared_ptr_dtor_handles)
next
  case New_null
  with assms show ?thesis
    by (auto simp: new_shared_def shared_ptr_default_def tidy_state_def)
next
  case Weak_null
  with assms show ?thesis
    by (auto simp: new_weak_def weak_ptr_default_def tidy_state_def)
next
  case (Weak_from_shared i)
  with assms show ?thesis
    by (auto simp: and_then_Inr new_weak_def tidy_state_def same_handles_def weak_ptr_copy_def
        dest!: weak_ptr_ptr_cb_result dest: tidy_lookup)
next
  case (Weak_copy i)
  with assms show ?thesis
    by (auto simp: and_then_Inr new_weak_def tidy_state_def same_handles_def weak_ptr_copy_def
        dest!: weak_ptr_ptr_cb_result dest: tidy_lookup)
next
  case (Weak_move i)
  with assms show ?thesis
    by (auto simp: and_then_Inr new_weak_def tidy_state_def weak_ptr_move_def
        intro!: tidy_all_update dest: tidy_lookup)
next
  case (Weak_assign_shared i j)
  with assms show ?thesis
    by (auto simp: and_then_Inr weak_assign_shared_def weak_ptr_copy_def
        dest!: weak_ptr_ptr_cb_result elim!: weak_swap_in_tidy_after dest: tidy_state_lookup)
next
  case (Weak_assign_copy i j)
  with assms show ?thesis
    by (auto simp: and_then_Inr weak_assign_copy_def weak_ptr_copy_def
        dest!: weak_ptr_ptr_cb_result elim!: weak_swap_in_tidy_after dest: tidy_state_lookup)
next
  case (Weak_assign_move i j)
  with assms show ?thesis
    by (auto simp: and_then_Inr weak_assign_move_def weak_ptr_move_def
        elim!: weak_swap_in_tidy intro!: tidy_state_moved dest: tidy_state_lookup)
next
  case (Lock i)
  with assms show ?thesis
    by (auto simp: and_then_Inr new_shared_def tidy_state_def same_handles_def
        dest!: lock_result_handle)
next
  case (Weak_reset i)
  with assms show ?thesis
    by (auto simp: weak_reset_def weak_ptr_default_def elim!: weak_swap_in_tidy)
next
  case (Weak_swap i j)
  with assms(1) obtain t oth where t: "lookup (weak_handles s) i = Inr t"
    and oth: "lookup (weak_handles s) j = Inr oth"
    and s': "s' = s\<lparr>weak_handles := (weak_handles s)
        [i := Some (t\<lparr>ptr := ptr oth, cb := cb oth\<rparr>),
         j := Some (oth\<lparr>ptr := ptr t, cb := cb t\<rparr>)]\<rparr>"
    by (auto simp: and_then_Inr weak_swap_handles_def swap_def)
  from assms(2) t oth have "tidy t" "tidy oth"
    by (auto dest: tidy_state_lookup)
  with assms(2) s' show ?thesis
    by (auto simp: tidy_state_def intro!: tidy_all_update)
next
  case (Weak_destroy i)
  with assms show ?thesis
    by (auto simp: and_then_Inr tidy_state_def same_handles_def
        intro!: tidy_all_kill dest!: weak_ptr_dtor_handles)
qed

lemma run_tidy:
  assumes "run s ops = Inr s'" and "tidy_state s" and "plain s ops"
  shows "tidy_state s'"
  using assms
proof (induction ops arbitrary: s)
  case Nil
  then show ?case by simp
next
  case (Cons x xs)
  from Cons.prems(1) obtain s1 where 1: "step s x = Inr s1" and 2: "run s1 xs = Inr s'"
    by (auto simp: and_then_Inr)
  from Cons.prems(3) 1 have na: "\<not> aliases_null_block s x" and p: "plain s1 xs"
    by simp_all
  from step_tidy [OF 1 Cons.prems(2) na] have "tidy_state s1" .
  from Cons.IH [OF 2 this p] show ?case .
qed

lemma tidy_state_init: "tidy_state init"
  by (simp add: tidy_state_def tidy_all_def init_def)

section \<open>Effects on one block\<close>

lemma release_strong_ref_frame:
  assumes "release_strong_ref c s = Inr s'" and "a \<noteq> c"
  shows "heap s' a = heap s a"
  using assms
  by (auto simp: release_strong_ref_def delete_data_def release_weak_ref_def and_then_def Let_def
      split: option.splits if_splits block_kind.splits)

lemma shared_ptr_dtor_frame:
  assumes "shared_ptr_dtor t s = Inr s'" and "cb t \<noteq> Some a"
  shows "heap s' a = heap s a"
  using assms
  by (cases "cb t") (auto simp: shared_ptr_dtor_def intro!: release_strong_ref_frame)

lemma handle_eta [simp]: "\<lparr>ptr = ptr h, cb = cb h\<rparr> = h"
  by simp

lemma handle_update_all [simp]:
  "(t :: handle)\<lparr>ptr := p, cb := c\<rparr> = \<lparr>ptr = p, cb = c\<rparr>"
  "(t :: handle)\<lparr>cb := c, ptr := p\<rparr> = \<lparr>ptr = p, cb = c\<rparr>"
  by (cases t, simp)+

lemma release_strong_ref_count:
  assumes "release_strong_ref a s = Inr s'" and "heap s a = Some b"
  shows "case heap s' a of
           Some b' \<Rightarrow> strong_refs b' = strong_refs b - 1
         | None \<Rightarrow> strong_refs b = 1 \<and> weak_refs b = 1"
  using assms
  by (cases "kind b")
    (auto simp: release_strong_ref_def delete_data_def release_weak_ref_def and_then_def Let_def
      split: if_splits)

lemma reset_is_dtor:
  assumes "lookup (shared_handles s) i = Inr h"
  shows "reset i s = shared_ptr_dtor h
           (s\<lparr>shared_handles := (shared_handles s)[i := Some \<lparr>ptr = Nullptr, cb = None\<rparr>]\<rparr>)"
  using assms by (simp add: reset_def swap_in_def and_then_def swap_def shared_ptr_default_def)

lemma weak_reset_is_dtor:
  assumes "lookup (weak_handles s) j = Inr w"
  shows "weak_reset j s = weak_ptr_dtor w
           (s\<lparr>weak_handles := (weak_handles s)[j := Some \<lparr>ptr = Nullptr, cb = None\<rparr>]\<rparr>)"
  using assms
  by (simp add: weak_reset_def weak_swap_in_def and_then_def swap_def weak_ptr_default_def)

lemma assign_move_is_dtor:
  assumes "lookup (shared_handles s) i = Inr h" and "lookup (shared_handles s) k = Inr oth"
    and "k \<noteq> i"
  shows "assign_move i k s = shared_ptr_dtor h
           (s\<lparr>shared_handles := (shared_handles s)
               [k := Some \<lparr>ptr = Nullptr, cb = None\<rparr>, i := Some oth]\<rparr>)"
proof -
  from assms have "lookup ((shared_handles s)[k := Some \<lparr>ptr = Nullptr, cb = None\<rparr>]) i = Inr h"
    by (simp add: lookup_Inr)
  with assms(2) show ?thesis
    by (simp add: assign_move_def and_then_def shared_ptr_move_def shared_ptr_alias_move_def
        swap_in_def swap_def)
qed

lemma weak_assign_move_is_dtor:
  assumes "lookup (weak_handles s) j = Inr w" and "lookup (weak_handles s) m = Inr wo"
    and "m \<noteq> j"
  shows "weak_assign_move j m s = weak_ptr_dtor w
           (s\<lparr>weak_handles := (weak_handles s)
               [m := Some \<lparr>ptr = Nullptr, cb = None\<rparr>, j := Some wo]\<rparr>)"
proof -
  from assms have "lookup ((weak_handles s)[m := Some \<lparr>ptr = Nullptr, cb = None\<rparr>]) j = Inr w"
    by (simp add: lookup_Inr)
  with assms(2) show ?thesis
    by (simp add: weak_assign_move_def and_then_def weak_ptr_move_def
        weak_swap_in_def swap_def)
qed

lemma assign_move_self:
  assumes "lookup (shared_handles s) i = Inr h"
  shows "assign_move i i s = Inr s"
proof -
  from assms have i: "i < length (shared_handles s)" "shared_handles s ! i = Some h"
    by (simp_all add: lookup_Inr)
  then have "(shared_handles s)[i := Some h] = shared_handles s"
    by (metis list_update_id)
  with assms i show ?thesis
    by (simp add: assign_move_def and_then_def shared_ptr_move_def shared_ptr_alias_move_def
        swap_in_def swap_def lookup_def shared_ptr_dtor_def)
qed

lemma weak_assign_move_self:
  assumes "lookup (weak_handles s) j = Inr w"
  shows "weak_assign_move j j s = Inr s"
proof -
  from assms have j: "j < length (weak_handles s)" "weak_handles s ! j = Some w"
    by (simp_all add: lookup_Inr)
  then have "(weak_handles s)[j := Some w] = weak_handles s"
    by (metis list_update_id)
  with assms j show ?thesis
    by (simp add: weak_assign_move_def and_then_def weak_ptr_move_def
        weak_swap_in_def swap_def lookup_def weak_ptr_dtor_def)
qed

lemma assign_copy_is_dtor:
  assumes C: "consistent s" and B: "handle_objects s < 2 ^ 64 - 2"
    and h: "lookup (shared_handles s) i = Inr h" and oth: "lookup (shared_handles s) k = Inr oth"
  shows "\<exists>s2. shared_ptr_copy oth s = Inr (oth, s2) \<and> shared_handles s2 = shared_handles s
           \<and> assign_copy i k s = shared_ptr_dtor h
                (s2\<lparr>shared_handles := (shared_handles s)[i := Some oth]\<rparr>)"
proof -
  have "0 < holders a (shared_handles s) \<and> holders a (shared_handles s) < 2 ^ 64 - 1"
    if "cb oth = Some a" for a
    using holders_pos [OF oth that] shared_room [OF B] by simp
  from shared_ptr_ptr_cb_inv [OF consistentD [OF C] this, of "cb oth" "ptr oth"] obtain s2 where
    r: "shared_ptr_copy oth s = Inr (oth, s2)"
    and sw: "shared_handles s2 = shared_handles s"
    by (auto simp: shared_ptr_copy_def shared_ptr_alias_copy_def)
  from r sw h oth have "assign_copy i k s = shared_ptr_dtor h
                (s2\<lparr>shared_handles := (shared_handles s)[i := Some oth]\<rparr>)"
    by (simp add: assign_copy_def and_then_def swap_in_def swap_def)
  with r sw show ?thesis by blast
qed

lemma weak_assign_is_dtor:
  assumes C: "consistent s" and B: "handle_objects s < 2 ^ 64 - 2"
    and w: "lookup (weak_handles s) j = Inr w"
    and held: "\<And>a. cb oth = Some a \<Longrightarrow>
       0 < holders a (shared_handles s) \<or> 0 < holders a (weak_handles s)"
  shows "\<exists>s2. weak_ptr_copy oth s = Inr (oth, s2) \<and> weak_handles s2 = weak_handles s
           \<and> and_then (weak_ptr_copy oth s) (\<lambda>(tmp, s1). weak_swap_in j tmp s1)
               = weak_ptr_dtor w (s2\<lparr>weak_handles := (weak_handles s)[j := Some oth]\<rparr>)"
proof -
  from weak_copy_ok [OF C B held] obtain s2 where
    r: "weak_ptr_copy oth s = Inr (oth, s2)"
    and sw: "weak_handles s2 = weak_handles s"
    by auto
  from r sw w have "and_then (weak_ptr_copy oth s) (\<lambda>(tmp, s1). weak_swap_in j tmp s1)
               = weak_ptr_dtor w (s2\<lparr>weak_handles := (weak_handles s)[j := Some oth]\<rparr>)"
    by (simp add: and_then_def weak_swap_in_def swap_def)
  with r sw show ?thesis by blast
qed

section \<open>The properties\<close>

lemmas ctor_defs =
  and_then_def new_block_def shared_ptr_raw_deleter_def shared_ptr_raw_def
  shared_ptr_ptr_cb_def add_strong_ref_def get_strong_refs_def use_count_def get_def
  operator_bool_def shared_ptr_default_def shared_ptr_inplace_def get_ptr_def

lemmas run_defs =
  and_then_def lookup_def new_block_def shared_ptr_raw_deleter_def shared_ptr_raw_def
  shared_ptr_ptr_cb_def add_strong_ref_def add_weak_ref_def get_strong_refs_def
  release_strong_ref_def release_weak_ref_def delete_data_def
  shared_ptr_alias_copy_def shared_ptr_alias_move_def shared_ptr_copy_def shared_ptr_move_def
  shared_ptr_default_def shared_ptr_inplace_def get_ptr_def shared_ptr_dtor_def
  swap_def swap_in_def assign_copy_def assign_move_def reset_def reset_raw_def
  reset_raw_deleter_def swap_handles_def make_shared_def
  weak_ptr_default_def weak_ptr_ptr_cb_def weak_ptr_copy_def weak_ptr_move_def
  weak_ptr_dtor_def weak_swap_in_def weak_assign_shared_def weak_assign_copy_def
  weak_assign_move_def lock_def weak_reset_def weak_swap_handles_def
  new_shared_def new_weak_def constructed_def completed_def init_def

text \<open>
  C1. After any sequence of operations from the empty program state, \<^verbatim>\<open>use_count()\<close>
  on a live shared handle with a block returns the number of live shared handles that
  hold that block. The counters are 64-bit, so the statement is for programs that have
  constructed fewer than \<open>2 ^ 64 - 2\<close> handle objects.
\<close>

theorem use_count_counts_holders:
  assumes "run init ops = Inr s"
    and "handle_objects s < 2 ^ 64 - 2"
    and "lookup (shared_handles s) i = Inr h"
    and "cb h = Some a"
  shows "\<exists>n. use_count h s = Inr n \<and> unat n = holders a (shared_handles s)"
proof -
  from run_preserves [OF consistent_init assms(1,2)] have C: "consistent s" .
  from consistentD [OF C] holders_pos [OF assms(3,4)]
  obtain b where "heap s a = Some b" "unat (strong_refs b) = holders a (shared_handles s)"
    by (rule inv_with_allocated)
  with assms(4) show ?thesis
    by (simp add: use_count_def get_strong_refs_def)
qed

theorem use_count_counts_holders_witness:
  "\<exists>s. run init [Make_shared Some (42 :: int) (Some 0), Copy 0, Copy 1, Destroy 0,
                   Weak_from_shared 1 :: (int, int) op] = Inr s
      \<and> handle_objects s < 2 ^ 64 - 2
      \<and> lookup (shared_handles s) 2 = Inr \<lparr>ptr = Storage 0, cb = Some 0\<rparr>
      \<and> use_count \<lparr>ptr = Storage 0, cb = Some 0\<rparr> s = Inr 2
      \<and> holders 0 (shared_handles s) = 2"
proof -
  let ?ops = "[Make_shared Some (42 :: int) (Some 0), Copy 0, Copy 1, Destroy 0,
                   Weak_from_shared 1 :: (int, int) op]"
  obtain s where r: "run init ?ops = Inr s"
    and sh: "shared_handles s = [None, Some \<lparr>ptr = Storage 0, cb = Some 0\<rparr>,
        Some \<lparr>ptr = Storage 0, cb = Some 0\<rparr>]"
    and wk: "weak_handles s = [Some \<lparr>ptr = Storage 0, cb = Some 0\<rparr>]"
    by (simp add: run_defs)
  have b: "handle_objects s < 2 ^ 64 - 2" by (simp add: handle_objects_def sh wk)
  have l: "lookup (shared_handles s) 2 = Inr \<lparr>ptr = Storage 0, cb = Some 0\<rparr>"
    by (simp add: lookup_def sh)
  have h: "holders 0 (shared_handles s) = 2" by (simp add: holders_def sh)
  from use_count_counts_holders [OF r b l] h
  have "use_count \<lparr>ptr = Storage 0, cb = Some 0\<rparr> s = Inr 2"
    by (auto simp: word_unat_eq_iff)
  with r b l h show ?thesis by blast
qed

text \<open>
  C2. After any sequence of operations from the empty program state, and for every
  address \<open>a\<close>: the events of the blocks at \<open>a\<close> have come in the order created,
  \<^verbatim>\<open>delete_data()\<close>, deallocated (the phase is never \<open>Broken\<close>, so no block is
  deallocated before its object is destroyed, and none twice); when no block is
  allocated at \<open>a\<close>, every block created there has had its \<^verbatim>\<open>delete_data()\<close> run once
  and has been deallocated once; when a block is allocated at \<open>a\<close>, the earlier blocks
  have, and this one has not been deallocated and has had its \<^verbatim>\<open>delete_data()\<close> run
  once exactly if its strong count is 0. In such a state \<^verbatim>\<open>release_strong_ref\<close> runs
  \<^verbatim>\<open>delete_data()\<close> exactly when the strong count is 1, and then deallocates exactly when
  the weak count is 1, after \<^verbatim>\<open>delete_data()\<close>; \<^verbatim>\<open>release_weak_ref\<close> deallocates
  exactly when the weak count is 1. No continuation of the program touches a deleted
  block; in particular none deallocates a block a second time.
\<close>

theorem destroyed_once_then_freed_once:
  assumes "run init ops = Inr s"
    and "handle_objects s < 2 ^ 64 - 2"
  shows "phase_of a (trace s) \<noteq> Broken
    \<and> (case heap s a of
          None \<Rightarrow>
            count_list (trace s) (Delete_data a) = count_list (trace s) (Block_created a)
            \<and> count_list (trace s) (Deallocate a) = count_list (trace s) (Block_created a)
        | Some b \<Rightarrow>
            count_list (trace s) (Block_created a) = Suc (count_list (trace s) (Deallocate a))
            \<and> count_list (trace s) (Delete_data a)
                = count_list (trace s) (Deallocate a) + (if strong_refs b = 0 then 1 else 0)
            \<and> (\<exists>s'. release_strong_ref a s = Inr s'
                 \<and> filter (\<lambda>e. e = Delete_data a \<or> e = Deallocate a)
                      (drop (length (trace s)) (trace s'))
                     = (if strong_refs b = 1
                        then Delete_data a # (if weak_refs b = 1 then [Deallocate a] else [])
                        else []))
            \<and> (\<exists>s'. release_weak_ref a s = Inr s'
                 \<and> trace s' = trace s @ (if weak_refs b = 1 then [Deallocate a] else [])))
    \<and> (handle_objects s + length rest < 2 ^ 64 - 2 \<longrightarrow> run s rest \<noteq> Inl Dangling_block)"
proof -
  from run_preserves [OF consistent_init assms] have C: "consistent s" .
  then have I: "block_inv (\<lambda>a. holders a (shared_handles s))
      (\<lambda>a. holders a (weak_handles s)) s a"
    by (simp add: consistent_def inv_with_def)
  have safe: "run s rest \<noteq> Inl Dangling_block"
    if "handle_objects s + length rest < 2 ^ 64 - 2"
    using C that by (rule run_safe)
  show ?thesis
  proof (cases "heap s a")
    case None
    with I have "phase_of a (trace s) = Unallocated \<or> phase_of a (trace s) = Freed"
      by (simp add: block_inv_def)
    with phase_tally [where a = a and tr = "trace s"] None safe show ?thesis by auto
  next
    case (Some b)
    with I have "phase_of a (trace s) = (if strong_refs b = 0 then Expired else Alive)"
      by (simp add: block_inv_def)
    with phase_tally [where a = a and tr = "trace s"] Some
      release_strong_ref_trace [OF Some] release_weak_ref_trace [OF Some] safe
    show ?thesis by (simp split: if_splits)
  qed
qed

theorem destroyed_once_then_freed_once_witness:
  "\<exists>s. run init [Make_shared Some (42 :: int) (Some 0), Weak_from_shared 0, Destroy 0
                  :: (int, int) op] = Inr s
     \<and> handle_objects s < 2 ^ 64 - 2
     \<and> (\<exists>b. heap s 0 = Some b \<and> strong_refs b = 0 \<and> weak_refs b = 1)
     \<and> phase_of 0 (trace s) \<noteq> Broken
     \<and> count_list (trace s) (Block_created 0) = Suc (count_list (trace s) (Deallocate 0))
     \<and> count_list (trace s) (Delete_data 0) = count_list (trace s) (Deallocate 0) + 1
     \<and> (\<exists>s'. release_weak_ref 0 s = Inr s' \<and> trace s' = trace s @ [Deallocate 0])
     \<and> run s [Weak_destroy 0, Lock 0 :: (int, int) op] \<noteq> Inl Dangling_block"
proof -
  let ?ops = "[Make_shared Some (42 :: int) (Some 0), Weak_from_shared 0, Destroy 0
                  :: (int, int) op]"
  obtain s where r: "run init ?ops = Inr s"
    and sh: "shared_handles s = [None]"
    and wk: "weak_handles s = [Some \<lparr>ptr = Storage 0, cb = Some 0\<rparr>]"
    and hp: "heap s 0 = Some \<lparr>strong_refs = 0, weak_refs = 1, kind = Inplace_block None\<rparr>"
    by (simp add: run_defs)
  have b: "handle_objects s < 2 ^ 64 - 2" by (simp add: handle_objects_def sh wk)
  from destroyed_once_then_freed_once [OF r b, where a = 0
      and rest = "[Weak_destroy 0, Lock 0 :: (int, int) op]"] hp sh wk
  have "phase_of 0 (trace s) \<noteq> Broken
     \<and> count_list (trace s) (Block_created 0) = Suc (count_list (trace s) (Deallocate 0))
     \<and> count_list (trace s) (Delete_data 0) = count_list (trace s) (Deallocate 0) + 1
     \<and> (\<exists>s'. release_weak_ref 0 s = Inr s' \<and> trace s' = trace s @ [Deallocate 0])
     \<and> run s [Weak_destroy 0, Lock 0 :: (int, int) op] \<noteq> Inl Dangling_block"
    by (simp add: handle_objects_def)
  with r b hp show ?thesis by auto
qed

text \<open>
  Both aliasing constructors, given a source without a block and a non-null address,
  make a handle without a block whose \<^verbatim>\<open>get()\<close> is that address, not null. And a
  handle with a block that is move-assigned to itself releases nothing: a shared handle
  keeps its block, the strong count stays 1 and nothing is destroyed; a weak handle keeps
  its block and the weak count stays 2.
\<close>

theorem aliasing_null_block_counterexample:
  "map_sum id shared_handles (run init [New_null, Alias_copy 0 (Obj 5) :: (unit, unit) op])
     = Inr [Some \<lparr>ptr = Nullptr, cb = None\<rparr>, Some \<lparr>ptr = Obj 5, cb = None\<rparr>]
   \<and> map_sum id shared_handles (run init [New_null, Alias_move 0 (Obj 5) :: (unit, unit) op])
     = Inr [Some \<lparr>ptr = Nullptr, cb = None\<rparr>, Some \<lparr>ptr = Obj 5, cb = None\<rparr>]
   \<and> cb \<lparr>ptr = Obj 5, cb = None\<rparr> = None
   \<and> get \<lparr>ptr = Obj 5, cb = None\<rparr> \<noteq> Nullptr
   \<and> map_sum id shared_handles
         (run init [New_raw (Obj 1) (Some 0), Assign_move 0 0 :: (unit, unit) op])
       = Inr [Some \<lparr>ptr = Obj 1, cb = Some 0\<rparr>]
   \<and> map_sum id (use_count \<lparr>ptr = Obj 1, cb = Some 0\<rparr>)
         (run init [New_raw (Obj 1) (Some 0), Assign_move 0 0 :: (unit, unit) op])
       = Inr (Inr 1)
   \<and> map_sum id trace
         (run init [New_raw (Obj 1) (Some 0), Assign_move 0 0 :: (unit, unit) op])
       = Inr [Block_created 0]
   \<and> map_sum id weak_handles
         (run init [New_raw (Obj 1) (Some 0), Weak_from_shared 0, Weak_assign_move 0 0
                    :: (unit, unit) op])
       = Inr [Some \<lparr>ptr = Obj 1, cb = Some 0\<rparr>]
   \<and> heap (projr (run init [New_raw (Obj 1) (Some 0), Weak_from_shared 0,
                              Weak_assign_move 0 0 :: (unit, unit) op])) 0
       = Some \<lparr>strong_refs = 1, weak_refs = 2, kind = Mem_block (Obj 1) Default_delete\<rparr>"
  by (simp add: run_defs get_def use_count_def)

text \<open>
  C3, amended. After any sequence of operations from the empty program state, for a live
  shared handle \<open>h\<close> and a live weak handle \<open>w\<close>:

  if the block field is non-null, the handle is one of the holders that the block's
  counter of its kind counts (the strong count is the number of live shared handles of
  the block, the weak count the number of live weak handles, plus one while the strong
  count is not 0), and it releases exactly one reference: its destructor is one
  \<^verbatim>\<open>release_strong_ref\<close> (\<^verbatim>\<open>release_weak_ref\<close> for a weak handle) on that block, and
  \<^verbatim>\<open>reset()\<close>, copy assignment and move assignment from another handle object are one
  run of that destructor on the handle's previous value, after the new value is in
  place;

  if the block field is null, the destructor, and so every reassignment, releases
  nothing, \<^verbatim>\<open>use_count()\<close> is 0, and the observer pointer is null provided the program
  has given no aliasing constructor a non-null address together with a source that has
  no block;

  move-assigning a handle to itself changes nothing; and an aliasing constructor applied
  to a source without a block makes a handle without a block whose observer pointer is
  the address it was given.
\<close>

theorem handle_invariant:
  assumes "run init ops = Inr s"
    and "handle_objects s < 2 ^ 64 - 2"
  shows "(lookup (shared_handles s) i = Inr h \<longrightarrow>
            (case cb h of
               None \<Rightarrow>
                 use_count h s = Inr 0 \<and> shared_ptr_dtor h s1 = Inr s1
                 \<and> (plain init ops \<longrightarrow> get h = Nullptr)
             | Some a \<Rightarrow>
                 (\<exists>b. heap s a = Some b
                    \<and> unat (strong_refs b) = holders a (shared_handles s)
                    \<and> 0 < holders a (shared_handles s))
                 \<and> shared_ptr_dtor h s1 = release_strong_ref a s1)
            \<and> reset i s = shared_ptr_dtor h
                 (s\<lparr>shared_handles := (shared_handles s)[i := Some \<lparr>ptr = Nullptr, cb = None\<rparr>]\<rparr>)
            \<and> assign_move i i s = Inr s
            \<and> (lookup (shared_handles s) k = Inr oth \<longrightarrow>
                 (\<exists>s2. shared_ptr_copy oth s = Inr (oth, s2)
                    \<and> shared_handles s2 = shared_handles s
                    \<and> assign_copy i k s = shared_ptr_dtor h
                         (s2\<lparr>shared_handles := (shared_handles s)[i := Some oth]\<rparr>))
                 \<and> (k \<noteq> i \<longrightarrow>
                      assign_move i k s = shared_ptr_dtor h
                        (s\<lparr>shared_handles := (shared_handles s)
                            [k := Some \<lparr>ptr = Nullptr, cb = None\<rparr>, i := Some oth]\<rparr>))))
       \<and> (lookup (weak_handles s) j = Inr w \<longrightarrow>
            (case cb w of
               None \<Rightarrow> weak_ptr_dtor w s1 = Inr s1 \<and> (plain init ops \<longrightarrow> ptr w = Nullptr)
             | Some a \<Rightarrow>
                 (\<exists>b. heap s a = Some b
                    \<and> unat (weak_refs b)
                        = holders a (weak_handles s) + (if strong_refs b = 0 then 0 else 1)
                    \<and> 0 < holders a (weak_handles s))
                 \<and> weak_ptr_dtor w s1 = release_weak_ref a s1)
            \<and> weak_reset j s = weak_ptr_dtor w
                 (s\<lparr>weak_handles := (weak_handles s)[j := Some \<lparr>ptr = Nullptr, cb = None\<rparr>]\<rparr>)
            \<and> weak_assign_move j j s = Inr s
            \<and> (lookup (weak_handles s) m = Inr wo \<longrightarrow>
                 (\<exists>s2. weak_ptr_copy wo s = Inr (wo, s2)
                    \<and> weak_handles s2 = weak_handles s
                    \<and> weak_assign_copy j m s = weak_ptr_dtor w
                         (s2\<lparr>weak_handles := (weak_handles s)[j := Some wo]\<rparr>))
                 \<and> (m \<noteq> j \<longrightarrow>
                      weak_assign_move j m s = weak_ptr_dtor w
                        (s\<lparr>weak_handles := (weak_handles s)
                            [m := Some \<lparr>ptr = Nullptr, cb = None\<rparr>, j := Some wo]\<rparr>)))
            \<and> (lookup (shared_handles s) k = Inr oth \<longrightarrow>
                 (\<exists>s2. weak_ptr_copy oth s = Inr (oth, s2)
                    \<and> weak_handles s2 = weak_handles s
                    \<and> weak_assign_shared j k s = weak_ptr_dtor w
                         (s2\<lparr>weak_handles := (weak_handles s)[j := Some oth]\<rparr>))))
       \<and> (cb src = None \<longrightarrow>
            shared_ptr_alias_copy src p s = Inr (\<lparr>ptr = p, cb = None\<rparr>, s)
            \<and> shared_ptr_alias_move src p
                = (\<lparr>ptr = p, cb = None\<rparr>, \<lparr>ptr = Nullptr, cb = None\<rparr>))"
proof -
  from run_preserves [OF consistent_init assms] have C: "consistent s" .
  note B = assms(2)
  have T: "tidy_state s" if "plain init ops"
    using assms(1) tidy_state_init that by (rule run_tidy)
  have shared_part: "case cb h of
               None \<Rightarrow>
                 use_count h s = Inr 0 \<and> shared_ptr_dtor h s1 = Inr s1
                 \<and> (plain init ops \<longrightarrow> get h = Nullptr)
             | Some a \<Rightarrow>
                 (\<exists>b. heap s a = Some b
                    \<and> unat (strong_refs b) = holders a (shared_handles s)
                    \<and> 0 < holders a (shared_handles s))
                 \<and> shared_ptr_dtor h s1 = release_strong_ref a s1"
    if h: "lookup (shared_handles s) i = Inr h"
  proof (cases "cb h")
    case None
    have "get h = Nullptr" if "plain init ops"
      using tidy_state_lookup(1) [OF T [OF that] h] None by (simp add: tidy_def get_def)
    with None show ?thesis
      by (simp add: use_count_def shared_ptr_dtor_def)
  next
    case (Some a)
    from consistentD [OF C] holders_pos [OF h Some]
    obtain b where "heap s a = Some b" "unat (strong_refs b) = holders a (shared_handles s)"
      by (rule inv_with_allocated)
    with Some holders_pos [OF h Some] show ?thesis
      by (simp add: shared_ptr_dtor_def)
  qed
  have weak_part: "case cb w of
               None \<Rightarrow> weak_ptr_dtor w s1 = Inr s1 \<and> (plain init ops \<longrightarrow> ptr w = Nullptr)
             | Some a \<Rightarrow>
                 (\<exists>b. heap s a = Some b
                    \<and> unat (weak_refs b)
                        = holders a (weak_handles s) + (if strong_refs b = 0 then 0 else 1)
                    \<and> 0 < holders a (weak_handles s))
                 \<and> weak_ptr_dtor w s1 = release_weak_ref a s1"
    if w: "lookup (weak_handles s) j = Inr w"
  proof (cases "cb w")
    case None
    have "ptr w = Nullptr" if "plain init ops"
      using tidy_state_lookup(2) [OF T [OF that] w] None by (simp add: tidy_def)
    with None show ?thesis
      by (simp add: weak_ptr_dtor_def)
  next
    case (Some a)
    from consistentD [OF C] holders_pos [OF w Some]
    obtain b where b: "heap s a = Some b"
      by (rule inv_with_allocated_weak)
    from consistentD [OF C] have "block_inv (\<lambda>a. holders a (shared_handles s))
        (\<lambda>a. holders a (weak_handles s)) s a" by (rule inv_withD)
    with b have "unat (weak_refs b)
        = holders a (weak_handles s) + (if strong_refs b = 0 then 0 else 1)"
      by (simp add: block_inv_def)
    with Some b holders_pos [OF w Some] show ?thesis
      by (simp add: weak_ptr_dtor_def)
  qed
  have weak_from_weak: "\<exists>s2. weak_ptr_copy wo s = Inr (wo, s2)
                    \<and> weak_handles s2 = weak_handles s
                    \<and> weak_assign_copy j m s = weak_ptr_dtor w
                         (s2\<lparr>weak_handles := (weak_handles s)[j := Some wo]\<rparr>)"
    if w: "lookup (weak_handles s) j = Inr w" and wo: "lookup (weak_handles s) m = Inr wo"
  proof -
    have "0 < holders a (shared_handles s) \<or> 0 < holders a (weak_handles s)"
      if "cb wo = Some a" for a
      using holders_pos [OF wo that] by simp
    from weak_assign_is_dtor [OF C B w this] wo show ?thesis
      by (simp add: weak_assign_copy_def and_then_def)
  qed
  have weak_from_shared: "\<exists>s2. weak_ptr_copy oth s = Inr (oth, s2)
                    \<and> weak_handles s2 = weak_handles s
                    \<and> weak_assign_shared j k s = weak_ptr_dtor w
                         (s2\<lparr>weak_handles := (weak_handles s)[j := Some oth]\<rparr>)"
    if w: "lookup (weak_handles s) j = Inr w" and oth: "lookup (shared_handles s) k = Inr oth"
  proof -
    have "0 < holders a (shared_handles s) \<or> 0 < holders a (weak_handles s)"
      if "cb oth = Some a" for a
      using holders_pos [OF oth that] by simp
    from weak_assign_is_dtor [OF C B w this] oth show ?thesis
      by (simp add: weak_assign_shared_def and_then_def)
  qed
  have aliasing: "shared_ptr_alias_copy src p s = Inr (\<lparr>ptr = p, cb = None\<rparr>, s)
            \<and> shared_ptr_alias_move src p
                = (\<lparr>ptr = p, cb = None\<rparr>, \<lparr>ptr = Nullptr, cb = None\<rparr>)"
    if "cb src = None"
    using that
    by (simp add: shared_ptr_alias_copy_def shared_ptr_ptr_cb_def shared_ptr_alias_move_def)
  show ?thesis
  proof (intro conjI impI, goal_cases)
    case 1
    then show ?case by (rule shared_part)
  next
    case 2
    then show ?case by (rule reset_is_dtor)
  next
    case 3
    then show ?case by (rule assign_move_self)
  next
    case 4
    then show ?case by (intro assign_copy_is_dtor [OF C B])
  next
    case 5
    then show ?case by (intro assign_move_is_dtor)
  next
    case 6
    then show ?case by (rule weak_part)
  next
    case 7
    then show ?case by (rule weak_reset_is_dtor)
  next
    case 8
    then show ?case by (rule weak_assign_move_self)
  next
    case 9
    then show ?case by (intro weak_from_weak)
  next
    case 10
    then show ?case by (intro weak_assign_move_is_dtor)
  next
    case 11
    then show ?case by (intro weak_from_shared)
  next
    case 12
    then show ?case using aliasing by blast
  next
    case 13
    then show ?case using aliasing by blast
  qed
qed

theorem handle_invariant_witness:
  "(\<exists>s. run init [Make_shared Some (42 :: int) (Some 0), Weak_from_shared 0, New_null,
                  Alias_copy 0 (Obj 9), Move 2 :: (int, int) op] = Inr s
     \<and> handle_objects s < 2 ^ 64 - 2
     \<and> plain init [Make_shared Some (42 :: int) (Some 0), Weak_from_shared 0, New_null,
                  Alias_copy 0 (Obj 9), Move 2 :: (int, int) op]
     \<and> lookup (shared_handles s) 3 = Inr \<lparr>ptr = Obj 9, cb = Some 0\<rparr>
     \<and> lookup (shared_handles s) 2 = Inr \<lparr>ptr = Nullptr, cb = None\<rparr>
     \<and> lookup (shared_handles s) 0 = Inr \<lparr>ptr = Storage 0, cb = Some 0\<rparr>
     \<and> lookup (weak_handles s) 0 = Inr \<lparr>ptr = Storage 0, cb = Some 0\<rparr>
     \<and> (\<exists>b. heap s 0 = Some b \<and> unat (strong_refs b) = 2 \<and> unat (weak_refs b) = 2)
     \<and> use_count \<lparr>ptr = Nullptr, cb = None\<rparr> s = Inr 0
     \<and> get \<lparr>ptr = Nullptr, cb = None\<rparr> = Nullptr
     \<and> assign_move 3 0 s = release_strong_ref 0
          (s\<lparr>shared_handles := (shared_handles s)
              [0 := Some \<lparr>ptr = Nullptr, cb = None\<rparr>,
               3 := Some \<lparr>ptr = Storage 0, cb = Some 0\<rparr>]\<rparr>)
     \<and> weak_reset 0 s = release_weak_ref 0
          (s\<lparr>weak_handles := (weak_handles s)[0 := Some \<lparr>ptr = Nullptr, cb = None\<rparr>]\<rparr>))
   \<and> (\<exists>s. run init [New_null, Alias_copy 0 (Obj 5), Make_shared Some (42 :: int) (Some 0),
                  Weak_from_shared 2 :: (int, int) op] = Inr s
     \<and> handle_objects s < 2 ^ 64 - 2
     \<and> plain init [New_null, Alias_copy 0 (Obj 5), Make_shared Some (42 :: int) (Some 0),
                  Weak_from_shared 2 :: (int, int) op] = False
     \<and> lookup (shared_handles s) 2 = Inr \<lparr>ptr = Storage 0, cb = Some 0\<rparr>
     \<and> lookup (weak_handles s) 0 = Inr \<lparr>ptr = Storage 0, cb = Some 0\<rparr>
     \<and> (\<exists>b. heap s 0 = Some b \<and> unat (strong_refs b) = 1 \<and> unat (weak_refs b) = 2))"
proof -
  let ?null = "\<lparr>ptr = Nullptr, cb = None\<rparr>"
  let ?own = "\<lparr>ptr = Storage 0, cb = Some 0\<rparr>"
  let ?ali = "\<lparr>ptr = Obj 9, cb = Some 0\<rparr>"
  let ?P1 = "[Make_shared Some (42 :: int) (Some 0), Weak_from_shared 0, New_null,
                  Alias_copy 0 (Obj 9), Move 2 :: (int, int) op]"
  let ?P2 = "[New_null, Alias_copy 0 (Obj 5), Make_shared Some (42 :: int) (Some 0),
                  Weak_from_shared 2 :: (int, int) op]"
  have first: "\<exists>s. run init ?P1 = Inr s
     \<and> handle_objects s < 2 ^ 64 - 2
     \<and> plain init ?P1
     \<and> lookup (shared_handles s) 3 = Inr ?ali
     \<and> lookup (shared_handles s) 2 = Inr ?null
     \<and> lookup (shared_handles s) 0 = Inr ?own
     \<and> lookup (weak_handles s) 0 = Inr ?own
     \<and> (\<exists>b. heap s 0 = Some b \<and> unat (strong_refs b) = 2 \<and> unat (weak_refs b) = 2)
     \<and> use_count ?null s = Inr 0
     \<and> get ?null = Nullptr
     \<and> assign_move 3 0 s = release_strong_ref 0
          (s\<lparr>shared_handles := (shared_handles s)[0 := Some ?null, 3 := Some ?own]\<rparr>)
     \<and> weak_reset 0 s = release_weak_ref 0
          (s\<lparr>weak_handles := (weak_handles s)[0 := Some ?null]\<rparr>)"
  proof -
    obtain s where r: "run init ?P1 = Inr s"
      and sh: "shared_handles s = [Some ?own, Some ?null, Some ?null, Some ?ali]"
      and wk: "weak_handles s = [Some ?own]"
      by (simp add: run_defs)
    have b: "handle_objects s < 2 ^ 64 - 2" by (simp add: handle_objects_def sh wk)
    have p: "plain init ?P1" by (simp add: run_defs)
    have l3: "lookup (shared_handles s) 3 = Inr ?ali"
      and l2: "lookup (shared_handles s) 2 = Inr ?null"
      and l0: "lookup (shared_handles s) 0 = Inr ?own"
      and w0: "lookup (weak_handles s) 0 = Inr ?own"
      by (simp_all add: lookup_def sh wk)
    have h: "holders 0 (shared_handles s) = 2" "holders 0 (weak_handles s) = 1"
      by (simp_all add: holders_def sh wk)
    from handle_invariant [OF r b, where i = 3 and h = ?ali and k = 0 and oth = ?own
        and j = 0 and w = ?own and m = 0 and wo = ?own and src = ?null and p = "Obj 9"
        and ?s1.0 = "s\<lparr>shared_handles := (shared_handles s)[0 := Some ?null, 3 := Some ?own]\<rparr>"]
      l3 l0 w0 h
    have 1: "\<exists>b. heap s 0 = Some b \<and> unat (strong_refs b) = 2 \<and> unat (weak_refs b) = 2"
      and 3: "assign_move 3 0 s = release_strong_ref 0
          (s\<lparr>shared_handles := (shared_handles s)[0 := Some ?null, 3 := Some ?own]\<rparr>)"
      by (auto simp: word_zero_unat split: if_splits)
    from handle_invariant [OF r b, where i = 2 and h = ?null and k = 0 and oth = ?own
        and j = 0 and w = ?own and m = 0 and wo = ?own and src = ?null and p = "Obj 9"
        and ?s1.0 = "s\<lparr>weak_handles := (weak_handles s)[0 := Some ?null]\<rparr>"]
      l2 l0 w0 p
    have 2: "use_count ?null s = Inr 0" "get ?null = Nullptr"
      and 4: "weak_reset 0 s = release_weak_ref 0
          (s\<lparr>weak_handles := (weak_handles s)[0 := Some ?null]\<rparr>)"
      by simp_all
    from r b p l3 l2 l0 w0 1 2 3 4 show ?thesis by blast
  qed
  have second: "\<exists>s. run init ?P2 = Inr s
     \<and> handle_objects s < 2 ^ 64 - 2
     \<and> plain init ?P2 = False
     \<and> lookup (shared_handles s) 2 = Inr ?own
     \<and> lookup (weak_handles s) 0 = Inr ?own
     \<and> (\<exists>b. heap s 0 = Some b \<and> unat (strong_refs b) = 1 \<and> unat (weak_refs b) = 2)"
  proof -
    obtain s where r: "run init ?P2 = Inr s"
      and sh: "shared_handles s = [Some ?null, Some \<lparr>ptr = Obj 5, cb = None\<rparr>, Some ?own]"
      and wk: "weak_handles s = [Some ?own]"
      by (simp add: run_defs)
    have b: "handle_objects s < 2 ^ 64 - 2" by (simp add: handle_objects_def sh wk)
    have p: "plain init ?P2 = False" by (simp add: run_defs)
    have l2: "lookup (shared_handles s) 2 = Inr ?own"
      and w0: "lookup (weak_handles s) 0 = Inr ?own"
      by (simp_all add: lookup_def sh wk)
    have h: "holders 0 (shared_handles s) = 1" "holders 0 (weak_handles s) = 1"
      by (simp_all add: holders_def sh wk)
    from handle_invariant [OF r b, where i = 2 and h = ?own and k = 2 and oth = ?own
        and j = 0 and w = ?own and m = 0 and wo = ?own and src = ?null and p = "Obj 5"
        and ?s1.0 = s]
      l2 w0 h
    have "\<exists>b. heap s 0 = Some b \<and> unat (strong_refs b) = 1 \<and> unat (weak_refs b) = 2"
      by (auto simp: word_zero_unat split: if_splits)
    with r b p l2 w0 show ?thesis by blast
  qed
  from first second show ?thesis by blast
qed

text \<open>
  C4. \<^verbatim>\<open>weak_ptr::lock()\<close> returns the null shared handle, and changes nothing, when
  the weak handle has no block or its block's strong count is 0; otherwise it returns a
  shared handle with the weak handle's observer pointer and block, and the only change is
  that the block's strong count has grown by 1 (in \<^verbatim>\<open>std::size_t\<close> arithmetic).
\<close>

theorem lock_result:
  "(cb w = None \<longrightarrow> lock w s = Inr (shared_ptr_default, s))
   \<and> (cb w = Some a \<and> heap s a = Some b \<and> strong_refs b = 0 \<longrightarrow>
        lock w s = Inr (shared_ptr_default, s))
   \<and> (cb w = Some a \<and> heap s a = Some b \<and> strong_refs b \<noteq> 0 \<longrightarrow>
        lock w s = Inr (\<lparr>ptr = ptr w, cb = Some a\<rparr>,
                        s\<lparr>heap := (heap s)(a \<mapsto> b\<lparr>strong_refs := strong_refs b + 1\<rparr>)\<rparr>))"
  by (simp add: lock_def ctor_defs)

theorem lock_result_witness:
  "lock \<lparr>ptr = Obj 1, cb = None\<rparr> (init :: int state) = Inr (shared_ptr_default, init)
   \<and> lock \<lparr>ptr = Obj 1, cb = Some 5\<rparr>
        ((init :: int state)\<lparr>heap := [5 \<mapsto> \<lparr>strong_refs = 0, weak_refs = 1,
           kind = Mem_block (Obj 1) Default_delete\<rparr>]\<rparr>)
      = Inr (shared_ptr_default, init\<lparr>heap := [5 \<mapsto> \<lparr>strong_refs = 0, weak_refs = 1,
           kind = Mem_block (Obj 1) Default_delete\<rparr>]\<rparr>)
   \<and> lock \<lparr>ptr = Obj 1, cb = Some 5\<rparr>
        ((init :: int state)\<lparr>heap := [5 \<mapsto> \<lparr>strong_refs = 1, weak_refs = 2,
           kind = Mem_block (Obj 1) Default_delete\<rparr>]\<rparr>)
      = Inr (\<lparr>ptr = Obj 1, cb = Some 5\<rparr>,
             init\<lparr>heap := [5 \<mapsto> \<lparr>strong_refs = 2, weak_refs = 2,
               kind = Mem_block (Obj 1) Default_delete\<rparr>]\<rparr>)"
  using
    lock_result [of "\<lparr>ptr = Obj 1, cb = None\<rparr>" "init :: int state"]
    lock_result [of "\<lparr>ptr = Obj 1, cb = Some 5\<rparr>"
      "(init :: int state)\<lparr>heap := [5 \<mapsto> \<lparr>strong_refs = 0, weak_refs = 1,
           kind = Mem_block (Obj 1) Default_delete\<rparr>]\<rparr>" 5
      "\<lparr>strong_refs = 0, weak_refs = 1, kind = Mem_block (Obj 1) Default_delete\<rparr>"]
    lock_result [of "\<lparr>ptr = Obj 1, cb = Some 5\<rparr>"
      "(init :: int state)\<lparr>heap := [5 \<mapsto> \<lparr>strong_refs = 1, weak_refs = 2,
           kind = Mem_block (Obj 1) Default_delete\<rparr>]\<rparr>" 5
      "\<lparr>strong_refs = 1, weak_refs = 2, kind = Mem_block (Obj 1) Default_delete\<rparr>"]
  by simp

text \<open>
  C5. When the allocation of the control block fails, the constructor from a raw pointer
  and a destruction action calls the action on the pointer once (the one event added to
  the trace), changes nothing else, and throws \<^verbatim>\<open>std::bad_alloc\<close>: no handle is
  returned. The constructor without an action does the same with
  \<^verbatim>\<open>std::default_delete\<close>.
\<close>

theorem raw_ctor_allocation_failure:
  "shared_ptr_raw_deleter p d None s =
     Inr (Threw Bad_alloc (s\<lparr>trace := trace s @ [Deleter_call d p]\<rparr>))
   \<and> shared_ptr_raw p None s =
     Inr (Threw Bad_alloc (s\<lparr>trace := trace s @ [Deleter_call Default_delete p]\<rparr>))"
  by (simp add: ctor_defs)

text \<open>
  C6. In a consistent state, for a live handle \<open>h\<close> at index \<open>this\<close>: \<^verbatim>\<open>reset()\<close>,
  \<^verbatim>\<open>reset(new_ptr)\<close> and \<^verbatim>\<open>reset(new_ptr, action)\<close> (when the allocation succeeds) end
  in a consistent state, which is the one the destructor, run once on the previous value
  of \<open>h\<close>, gives from the state where \<open>h\<close> holds the replacement; and when the
  allocation fails, the call throws, and the only change is the call of the action on
  \<open>new_ptr\<close>: the handle's members and its \<^verbatim>\<open>use_count()\<close> are as before.
\<close>

theorem reset_releases_previous_once:
  assumes C: "consistent s" and B: "handle_objects s < 2 ^ 64 - 2"
    and h: "lookup (shared_handles s) this = Inr h"
  shows "(\<exists>s'. reset this s = Inr s' \<and> consistent s'
            \<and> shared_ptr_dtor h
                 (s\<lparr>shared_handles := (shared_handles s)[this := Some \<lparr>ptr = Nullptr, cb = None\<rparr>]\<rparr>)
               = Inr s')
     \<and> (heap s a' = None \<longrightarrow>
          (\<exists>s'. reset_raw_deleter this p d (Some a') s = Inr (Returned () s') \<and> consistent s'
             \<and> shared_ptr_dtor h
                  (s\<lparr>heap := (heap s)(a' \<mapsto> \<lparr>strong_refs = 1, weak_refs = 1, kind = Mem_block p d\<rparr>),
                     trace := trace s @ [Block_created a'],
                     shared_handles := (shared_handles s)[this := Some \<lparr>ptr = p, cb = Some a'\<rparr>]\<rparr>)
                = Inr s')
          \<and> (\<exists>s'. reset_raw this p (Some a') s = Inr (Returned () s') \<and> consistent s'
             \<and> shared_ptr_dtor h
                  (s\<lparr>heap := (heap s)(a' \<mapsto> \<lparr>strong_refs = 1, weak_refs = 1,
                        kind = Mem_block p Default_delete\<rparr>),
                     trace := trace s @ [Block_created a'],
                     shared_handles := (shared_handles s)[this := Some \<lparr>ptr = p, cb = Some a'\<rparr>]\<rparr>)
                = Inr s'))
     \<and> reset_raw_deleter this p d None s
          = Inr (Threw Bad_alloc (s\<lparr>trace := trace s @ [Deleter_call d p]\<rparr>))
     \<and> reset_raw this p None s
          = Inr (Threw Bad_alloc (s\<lparr>trace := trace s @ [Deleter_call Default_delete p]\<rparr>))
     \<and> lookup (shared_handles (s\<lparr>trace := trace s @ [Deleter_call d p]\<rparr>)) this = Inr h
     \<and> use_count h (s\<lparr>trace := trace s @ [Deleter_call d p]\<rparr>) = use_count h s"
proof -
  let ?H = "\<lambda>a. holders a (shared_handles s)"
  let ?W = "\<lambda>a. holders a (weak_handles s)"
  have I: "inv_with ?H ?W s" using C by (rule consistentD)
  have plain: "\<exists>s'. reset this s = Inr s' \<and> consistent s'
            \<and> shared_ptr_dtor h
                 (s\<lparr>shared_handles := (shared_handles s)[this := Some \<lparr>ptr = Nullptr, cb = None\<rparr>]\<rparr>)
               = Inr s'"
  proof -
    from I have "inv_with (bump (cb shared_ptr_default) ?H) ?W s"
      by (simp add: shared_ptr_default_def)
    from swap_in_inv [OF this h] show ?thesis
      by (auto simp: reset_def swap_in_def and_then_def h swap_def shared_ptr_default_def)
  qed
  have raw: "\<exists>s'. reset_raw_deleter this p d' (Some a') s = Inr (Returned () s') \<and> consistent s'
             \<and> shared_ptr_dtor h
                  (s\<lparr>heap := (heap s)(a' \<mapsto> \<lparr>strong_refs = 1, weak_refs = 1, kind = Mem_block p d'\<rparr>),
                     trace := trace s @ [Block_created a'],
                     shared_handles := (shared_handles s)[this := Some \<lparr>ptr = p, cb = Some a'\<rparr>]\<rparr>)
                = Inr s'"
    if fresh: "heap s a' = None" for d'
  proof -
    let ?s1 = "s\<lparr>heap := (heap s)(a' \<mapsto> \<lparr>strong_refs = 1, weak_refs = 1, kind = Mem_block p d'\<rparr>),
                     trace := trace s @ [Block_created a']\<rparr>"
    let ?tmp = "\<lparr>ptr = p, cb = Some a'\<rparr>"
    have ctor: "shared_ptr_raw_deleter p d' (Some a') s = Inr (Returned ?tmp ?s1)"
      using fresh by (simp add: shared_ptr_raw_deleter_def new_block_def and_then_def)
    from raw_deleter_inv [OF C, of p d' "Some a'"] ctor
    have I1: "inv_with (bump (cb ?tmp) (\<lambda>a. holders a (shared_handles ?s1)))
        (\<lambda>a. holders a (weak_handles ?s1)) ?s1"
      by simp
    have h1: "lookup (shared_handles ?s1) this = Inr h" using h by simp
    from swap_in_inv [OF I1 h1] obtain s' where
      "swap_in this ?tmp ?s1 = Inr s'" "consistent s'" by blast
    with ctor h show ?thesis
      by (auto simp: reset_raw_deleter_def and_then_def swap_in_def swap_def)
  qed
  have fail: "reset_raw_deleter this p d' None s
          = Inr (Threw Bad_alloc (s\<lparr>trace := trace s @ [Deleter_call d' p]\<rparr>))" for d'
    by (simp add: reset_raw_deleter_def shared_ptr_raw_deleter_def new_block_def and_then_def)
  have same: "lookup (shared_handles (s\<lparr>trace := trace s @ [Deleter_call d p]\<rparr>)) this = Inr h"
    "use_count h (s\<lparr>trace := trace s @ [Deleter_call d p]\<rparr>) = use_count h s"
    using h by (simp_all add: use_count_def get_strong_refs_def cong: option.case_cong)
  have rr: "reset_raw this p alloc s = reset_raw_deleter this p Default_delete alloc s" for alloc
    by (simp add: reset_raw_def reset_raw_deleter_def shared_ptr_raw_def)
  from plain raw [of d] raw [of Default_delete] fail [of d] fail [of Default_delete] same
  show ?thesis unfolding rr by blast
qed

theorem reset_releases_previous_once_witness:
  "\<exists>s. consistent s \<and> handle_objects s < 2 ^ 64 - 2
     \<and> lookup (shared_handles s) 0 = Inr \<lparr>ptr = Obj 1, cb = Some 0\<rparr>
     \<and> heap s 1 = None
     \<and> (\<exists>s'. reset 0 (s :: int state) = Inr s' \<and> consistent s')
     \<and> (\<exists>s'. reset_raw_deleter 0 (Obj 2) (Action 3) (Some 1) s = Inr (Returned () s')
           \<and> consistent s')
     \<and> (\<exists>s'. reset_raw 0 (Obj 2) (Some 1) s = Inr (Returned () s') \<and> consistent s')
     \<and> reset_raw_deleter 0 (Obj 2) (Action 3) None s
          = Inr (Threw Bad_alloc (s\<lparr>trace := trace s @ [Deleter_call (Action 3) (Obj 2)]\<rparr>))"
proof -
  let ?ops = "[New_raw (Obj 1) (Some 0), Copy 0 :: (int, int) op]"
  obtain s :: "int state" where r: "run init ?ops = Inr s"
    and sh: "shared_handles s = [Some \<lparr>ptr = Obj 1, cb = Some 0\<rparr>, Some \<lparr>ptr = Obj 1, cb = Some 0\<rparr>]"
    and wk: "weak_handles s = []"
    and hp: "heap s 1 = None"
    by (simp add: run_defs)
  have b: "handle_objects s < 2 ^ 64 - 2" by (simp add: handle_objects_def sh wk)
  from run_preserves [OF consistent_init r b] have c: "consistent s" .
  have l: "lookup (shared_handles s) 0 = Inr \<lparr>ptr = Obj 1, cb = Some 0\<rparr>"
    by (simp add: lookup_def sh)
  from reset_releases_previous_once [OF c b l, of 1 "Obj 2" "Action 3"] hp
  have "(\<exists>s'. reset 0 s = Inr s' \<and> consistent s')
     \<and> (\<exists>s'. reset_raw_deleter 0 (Obj 2) (Action 3) (Some 1) s = Inr (Returned () s')
           \<and> consistent s')
     \<and> (\<exists>s'. reset_raw 0 (Obj 2) (Some 1) s = Inr (Returned () s') \<and> consistent s')
     \<and> reset_raw_deleter 0 (Obj 2) (Action 3) None s
          = Inr (Threw Bad_alloc (s\<lparr>trace := trace s @ [Deleter_call (Action 3) (Obj 2)]\<rparr>))"
    by blast
  with c b l hp show ?thesis by blast
qed

text \<open>
  C7. \<^verbatim>\<open>make_shared<T>(args...)\<close>, when the allocation and the constructor of \<open>T\<close>
  succeed, returns a handle whose \<^verbatim>\<open>get()\<close> is the address of the storage of the new
  block; that storage holds the object \<open>T\<close>'s constructor made from \<open>args\<close>; the block's
  counters are the initial ones, so \<^verbatim>\<open>use_count()\<close> is 1, and the only event is the
  creation of the block.
\<close>

theorem make_shared_result:
  assumes "heap s a = None" and "ctor args = Some v"
  shows "\<exists>h s1. make_shared ctor args (Some a) s = Inr (Returned h s1)
           \<and> get h = get_ptr a \<and> cb h = Some a \<and> deref h s1 = Some v
           \<and> heap s1 a = Some \<lparr>strong_refs = 1, weak_refs = 1, kind = Inplace_block (Some v)\<rparr>
           \<and> use_count h s1 = Inr 1
           \<and> trace s1 = trace s @ [Block_created a]"
  using assms by (simp add: make_shared_def deref_def ctor_defs)

theorem make_shared_result_witness:
  "\<exists>h s1. make_shared Some (42 :: int) (Some 7) init = Inr (Returned h s1)
           \<and> get h = get_ptr 7 \<and> cb h = Some 7 \<and> deref h s1 = Some 42
           \<and> heap s1 7 = Some \<lparr>strong_refs = 1, weak_refs = 1, kind = Inplace_block (Some 42)\<rparr>
           \<and> use_count h s1 = Inr 1
           \<and> trace s1 = trace (init :: int state) @ [Block_created 7]"
  using make_shared_result [of "init :: int state" 7 Some "42 :: int" 42]
  by (simp add: init_def)

text \<open>
  Copy assignment to a handle that already holds the block leaves the strong count at 2;
  move assignment to such a handle lowers it to 1; and a handle move-assigned to itself
  keeps its pointer and its block.
\<close>

theorem assignment_same_block_counterexample:
  "map_sum id (use_count \<lparr>ptr = Obj 1, cb = Some 0\<rparr>)
     (run init [New_raw (Obj 1) (Some 0), Copy 0 :: (unit, unit) op]) = Inr (Inr 2)
   \<and> map_sum id (use_count \<lparr>ptr = Obj 1, cb = Some 0\<rparr>)
     (run init [New_raw (Obj 1) (Some 0), Copy 0, Assign_copy 1 0 :: (unit, unit) op])
       = Inr (Inr 2)
   \<and> map_sum id (use_count \<lparr>ptr = Obj 1, cb = Some 0\<rparr>)
     (run init [New_raw (Obj 1) (Some 0), Copy 0, Assign_move 1 0 :: (unit, unit) op])
       = Inr (Inr 1)
   \<and> map_sum id shared_handles
     (run init [New_raw (Obj 1) (Some 0), Assign_move 0 0 :: (unit, unit) op])
       = Inr [Some \<lparr>ptr = Obj 1, cb = Some 0\<rparr>]"
  by (simp add: run_defs use_count_def)

text \<open>
  C8, amended. In a consistent state, for a live handle \<open>oth\<close> with the allocated block
  \<open>b\<close> at \<open>a\<close>, and a live assignment target \<open>t\<close>: copy construction adds 1 to the
  strong count of \<open>b\<close> (without wrap-around) and changes nothing else; move construction
  touches no counter and leaves the source null; copy assignment leaves the target with
  the source's pointer and block, and the strong count one higher when the target did not
  hold \<open>b\<close> before, and unchanged when it did; move assignment leaves the target with the
  source's pointer and block, and when the target is another handle object, the source
  null, and the strong count unchanged if the target did not hold \<open>b\<close> before; moving a
  handle to itself changes nothing; destroying a holder lowers the strong count by 1, or
  deallocates the block when both counts were 1.
\<close>

theorem copy_adds_one_move_adds_none:
  assumes C: "consistent s" and B: "handle_objects s < 2 ^ 64 - 2"
    and o: "lookup (shared_handles s) other = Inr oth" and a: "cb oth = Some a"
    and t: "lookup (shared_handles s) this = Inr t"
  shows "\<exists>b. heap s a = Some b
     \<and> shared_ptr_copy oth s
         = Inr (\<lparr>ptr = ptr oth, cb = Some a\<rparr>,
                s\<lparr>heap := (heap s)(a \<mapsto> b\<lparr>strong_refs := strong_refs b + 1\<rparr>)\<rparr>)
     \<and> unat (strong_refs b + 1) = unat (strong_refs b) + 1
     \<and> shared_ptr_move oth = (\<lparr>ptr = ptr oth, cb = Some a\<rparr>, \<lparr>ptr = Nullptr, cb = None\<rparr>)
     \<and> (\<exists>s'. assign_copy this other s = Inr s'
           \<and> lookup (shared_handles s') this = Inr \<lparr>ptr = ptr oth, cb = Some a\<rparr>
           \<and> heap s' a
               = Some (if cb t = Some a then b else b\<lparr>strong_refs := strong_refs b + 1\<rparr>))
     \<and> (\<exists>s'. assign_move this other s = Inr s'
           \<and> lookup (shared_handles s') this = Inr \<lparr>ptr = ptr oth, cb = Some a\<rparr>
           \<and> (if this = other then s' = s
               else lookup (shared_handles s') other = Inr \<lparr>ptr = Nullptr, cb = None\<rparr>
                 \<and> (cb t \<noteq> Some a \<longrightarrow> heap s' a = Some b)))
     \<and> (\<exists>s'. shared_ptr_dtor oth s = Inr s'
           \<and> (case heap s' a of
                 Some b' \<Rightarrow> strong_refs b' = strong_refs b - 1
               | None \<Rightarrow> strong_refs b = 1 \<and> weak_refs b = 1))"
proof -
  let ?H = "\<lambda>a. holders a (shared_handles s)"
  let ?W = "\<lambda>a. holders a (weak_handles s)"
  let ?tmp = "\<lparr>ptr = ptr oth, cb = Some a\<rparr>"
  have I: "inv_with ?H ?W s" using C by (rule consistentD)
  have pos: "0 < ?H a" using o a by (rule holders_pos)
  from I pos obtain b where b: "heap s a = Some b" "strong_refs b \<noteq> 0"
    "unat (strong_refs b) = ?H a"
    by (rule inv_with_allocated)
  let ?s1 = "s\<lparr>heap := (heap s)(a \<mapsto> b\<lparr>strong_refs := strong_refs b + 1\<rparr>)\<rparr>"
  have len: "i < length (shared_handles s) \<and> shared_handles s ! i = Some h"
    if "lookup (shared_handles s) i = Inr h" for i h
    using that by (simp add: lookup_Inr)
  have oth_eq: "?tmp = oth" using a by (cases oth) simp
  \<comment> \<open>copy construction\<close>
  have copy: "shared_ptr_copy oth s = Inr (?tmp, ?s1)"
    by (simp add: shared_ptr_copy_def shared_ptr_alias_copy_def shared_ptr_ptr_cb_def
        add_strong_ref_def and_then_def a b)
  have nowrap: "unat (strong_refs b + 1) = unat (strong_refs b) + 1"
    using b(3) shared_room [OF B, of a] by (simp add: unat_succ)
  \<comment> \<open>move construction\<close>
  have move: "shared_ptr_move oth = (?tmp, \<lparr>ptr = Nullptr, cb = None\<rparr>)"
    by (simp add: shared_ptr_move_def shared_ptr_alias_move_def a)
  \<comment> \<open>copy assignment\<close>
  have acopy: "\<exists>s'. assign_copy this other s = Inr s'
           \<and> lookup (shared_handles s') this = Inr ?tmp
           \<and> heap s' a
               = Some (if cb t = Some a then b else b\<lparr>strong_refs := strong_refs b + 1\<rparr>)"
  proof -
    let ?X = "?s1\<lparr>shared_handles := (shared_handles s)[this := Some ?tmp]\<rparr>"
    have run: "assign_copy this other s = shared_ptr_dtor t ?X"
      by (simp add: assign_copy_def and_then_def o copy swap_in_def t swap_def)
    show ?thesis
    proof (cases "cb t = Some a")
      case True
      have "strong_refs b + 1 - 1 \<noteq> 0" using b(2) by simp
      then have "shared_ptr_dtor t ?X = Inr (?X\<lparr>heap := (heap ?X)(a \<mapsto> b)\<rparr>)"
        using True by (simp add: shared_ptr_dtor_def release_strong_ref_def Let_def)
      with run True len [OF t] show ?thesis
        by (simp add: lookup_def)
    next
      case False
      have "0 < ?H a' \<and> ?H a' < 2 ^ 64 - 1" if "cb oth = Some a'" for a'
        using holders_pos [OF o that] shared_room [OF B] by simp
      from shared_ptr_ptr_cb_inv [OF I this, of "cb oth" "ptr oth"] copy a
      have I1: "inv_with (bump (cb ?tmp) (\<lambda>a. holders a (shared_handles ?s1)))
          (\<lambda>a. holders a (weak_handles ?s1)) ?s1"
        by (simp add: shared_ptr_copy_def shared_ptr_alias_copy_def)
      have t1: "lookup (shared_handles ?s1) this = Inr t" using t by simp
      from swap_in_inv [OF I1 t1] obtain s' where
        s': "shared_ptr_dtor t ?X = Inr s'"
        by (auto simp: swap_in_def and_then_def t swap_def)
      from shared_ptr_dtor_handles [OF s'] len [OF t]
      have "lookup (shared_handles s') this = Inr ?tmp"
        by (simp add: same_handles_def lookup_def)
      moreover from shared_ptr_dtor_frame [OF s' False]
      have "heap s' a = Some (b\<lparr>strong_refs := strong_refs b + 1\<rparr>)" by simp
      ultimately show ?thesis using run s' False by simp
    qed
  qed
  \<comment> \<open>move assignment\<close>
  have amove: "\<exists>s'. assign_move this other s = Inr s'
           \<and> lookup (shared_handles s') this = Inr ?tmp
           \<and> (if this = other then s' = s
               else lookup (shared_handles s') other = Inr \<lparr>ptr = Nullptr, cb = None\<rparr>
                 \<and> (cb t \<noteq> Some a \<longrightarrow> heap s' a = Some b))"
  proof (cases "this = other")
    case True
    with o t have "t = oth" by simp
    have "(shared_handles s)[other := Some oth] = shared_handles s"
      using len [OF o] by (metis list_update_id)
    then have "assign_move this other s = Inr s"
      using True o len [OF o] a
      by (simp add: assign_move_def and_then_def shared_ptr_move_def shared_ptr_alias_move_def
          swap_in_def swap_def lookup_def shared_ptr_dtor_def)
    with True o a show ?thesis by simp
  next
    case False
    let ?s1 = "s\<lparr>shared_handles := (shared_handles s)[other := Some \<lparr>ptr = Nullptr, cb = None\<rparr>]\<rparr>"
    let ?X = "?s1\<lparr>shared_handles := (shared_handles ?s1)[this := Some ?tmp]\<rparr>"
    have t1: "lookup (shared_handles ?s1) this = Inr t"
      using t False by (simp add: lookup_Inr)
    have run: "assign_move this other s = shared_ptr_dtor t ?X"
      using t1 by (simp add: assign_move_def and_then_def o shared_ptr_move_def
          shared_ptr_alias_move_def swap_in_def swap_def oth_eq)
    have "bump (cb ?tmp) (\<lambda>a. holders a (shared_handles ?s1)) = ?H"
      using holders_fun_update [OF o, of "\<lparr>ptr = Nullptr, cb = None\<rparr>"] pos a
      by (simp add: fun_eq_iff)
    with I have I1: "inv_with (bump (cb ?tmp) (\<lambda>a. holders a (shared_handles ?s1)))
          (\<lambda>a. holders a (weak_handles ?s1)) ?s1"
      by simp
    from swap_in_inv [OF I1 t1] obtain s' where
      s': "shared_ptr_dtor t ?X = Inr s'"
      using t1 by (auto simp: swap_in_def and_then_def swap_def)
    from shared_ptr_dtor_handles [OF s'] len [OF t] len [OF o] False
    have "lookup (shared_handles s') this = Inr ?tmp"
      "lookup (shared_handles s') other = Inr \<lparr>ptr = Nullptr, cb = None\<rparr>"
      by (simp_all add: same_handles_def lookup_def)
    moreover have "heap s' a = Some b" if "cb t \<noteq> Some a"
      using shared_ptr_dtor_frame [OF s' that] b(1) by simp
    ultimately show ?thesis using run s' False by simp
  qed
  \<comment> \<open>destruction\<close>
  have dtor: "\<exists>s'. shared_ptr_dtor oth s = Inr s'
           \<and> (case heap s' a of
                 Some b' \<Rightarrow> strong_refs b' = strong_refs b - 1
               | None \<Rightarrow> strong_refs b = 1 \<and> weak_refs b = 1)"
  proof -
    from shared_ptr_dtor_inv [OF I, of oth] pos a obtain s' where
      s': "shared_ptr_dtor oth s = Inr s'" by auto
    then have "release_strong_ref a s = Inr s'" by (simp add: shared_ptr_dtor_def a)
    from release_strong_ref_count [OF this b(1)] s' show ?thesis by blast
  qed
  from b(1) copy nowrap move acopy amove dtor show ?thesis by blast
qed

theorem copy_adds_one_move_adds_none_witness:
  "\<exists>s. consistent s \<and> handle_objects s < 2 ^ 64 - 2
     \<and> lookup (shared_handles s) 0 = Inr \<lparr>ptr = Obj 1, cb = Some 0\<rparr>
     \<and> lookup (shared_handles s) 1 = Inr \<lparr>ptr = Nullptr, cb = None\<rparr>
     \<and> use_count \<lparr>ptr = Obj 1, cb = Some 0\<rparr> (s :: int state) = Inr 1
     \<and> (\<exists>s'. shared_ptr_copy \<lparr>ptr = Obj 1, cb = Some 0\<rparr> s
               = Inr (\<lparr>ptr = Obj 1, cb = Some 0\<rparr>, s')
           \<and> use_count \<lparr>ptr = Obj 1, cb = Some 0\<rparr> s' = Inr 2)
     \<and> (\<exists>s'. assign_copy 1 0 s = Inr s'
           \<and> lookup (shared_handles s') 1 = Inr \<lparr>ptr = Obj 1, cb = Some 0\<rparr>
           \<and> use_count \<lparr>ptr = Obj 1, cb = Some 0\<rparr> s' = Inr 2)
     \<and> (\<exists>s'. assign_move 1 0 s = Inr s'
           \<and> lookup (shared_handles s') 1 = Inr \<lparr>ptr = Obj 1, cb = Some 0\<rparr>
           \<and> lookup (shared_handles s') 0 = Inr \<lparr>ptr = Nullptr, cb = None\<rparr>
           \<and> use_count \<lparr>ptr = Obj 1, cb = Some 0\<rparr> s' = Inr 1)"
proof -
  let ?ops = "[New_raw (Obj 1) (Some 0), New_null :: (int, int) op]"
  let ?b = "\<lparr>strong_refs = 1, weak_refs = 1, kind = Mem_block (Obj 1) Default_delete\<rparr>
    :: int control_block"
  obtain s :: "int state" where r: "run init ?ops = Inr s"
    and sh: "shared_handles s = [Some \<lparr>ptr = Obj 1, cb = Some 0\<rparr>, Some \<lparr>ptr = Nullptr, cb = None\<rparr>]"
    and wk: "weak_handles s = []"
    and hp: "heap s 0 = Some ?b"
    by (simp add: run_defs)
  have b: "handle_objects s < 2 ^ 64 - 2" by (simp add: handle_objects_def sh wk)
  from run_preserves [OF consistent_init r b] have c: "consistent s" .
  have l0: "lookup (shared_handles s) 0 = Inr \<lparr>ptr = Obj 1, cb = Some 0\<rparr>"
    and l1: "lookup (shared_handles s) 1 = Inr \<lparr>ptr = Nullptr, cb = None\<rparr>"
    by (simp_all add: lookup_def sh)
  have u: "use_count \<lparr>ptr = Obj 1, cb = Some 0\<rparr> s = Inr 1"
    by (simp add: use_count_def get_strong_refs_def hp)
  from copy_adds_one_move_adds_none [OF c b l0 _ l1, of 0] hp
  have "(\<exists>s'. shared_ptr_copy \<lparr>ptr = Obj 1, cb = Some 0\<rparr> s
               = Inr (\<lparr>ptr = Obj 1, cb = Some 0\<rparr>, s')
           \<and> use_count \<lparr>ptr = Obj 1, cb = Some 0\<rparr> s' = Inr 2)
     \<and> (\<exists>s'. assign_copy 1 0 s = Inr s'
           \<and> lookup (shared_handles s') 1 = Inr \<lparr>ptr = Obj 1, cb = Some 0\<rparr>
           \<and> use_count \<lparr>ptr = Obj 1, cb = Some 0\<rparr> s' = Inr 2)
     \<and> (\<exists>s'. assign_move 1 0 s = Inr s'
           \<and> lookup (shared_handles s') 1 = Inr \<lparr>ptr = Obj 1, cb = Some 0\<rparr>
           \<and> lookup (shared_handles s') 0 = Inr \<lparr>ptr = Nullptr, cb = None\<rparr>
           \<and> use_count \<lparr>ptr = Obj 1, cb = Some 0\<rparr> s' = Inr 1)"
    by (auto simp: use_count_def get_strong_refs_def)
  with c b l0 l1 u show ?thesis by blast
qed

text \<open>
  C9. \<^verbatim>\<open>a == b\<close> is \<^verbatim>\<open>a.get() == b.get()\<close>, whatever the blocks of the two handles
  are: two handles with the same block are equal exactly when their observer pointers
  are. Comparison with \<^verbatim>\<open>nullptr\<close>, on either side, holds exactly when \<^verbatim>\<open>get()\<close> is
  null.
\<close>

theorem equality_compares_observer_pointers:
  "operator_eq a b = (get a = get b)
   \<and> operator_eq \<lparr>ptr = p, cb = c\<rparr> \<lparr>ptr = q, cb = c'\<rparr> = (p = q)
   \<and> operator_neq a b = (get a \<noteq> get b)
   \<and> operator_eq_null a = (get a = Nullptr)
   \<and> null_eq_operator a = (get a = Nullptr)"
  by (simp add: operator_eq_def operator_neq_def operator_eq_null_def null_eq_operator_def
      get_def)

text \<open>
  C10. A shared handle constructed from a null raw pointer, with or without a destruction
  action, has a control block of its own: \<^verbatim>\<open>use_count()\<close> is 1 although the boolean
  conversion is false and \<^verbatim>\<open>get()\<close> is null.
\<close>

theorem null_raw_pointer_has_block:
  assumes "heap s a = None"
  shows "(\<exists>h s1. shared_ptr_raw Nullptr (Some a) s = Inr (Returned h s1)
            \<and> use_count h s1 = Inr 1 \<and> operator_bool h = False \<and> get h = Nullptr
            \<and> cb h = Some a)
       \<and> (\<exists>h s1. shared_ptr_raw_deleter Nullptr d (Some a) s = Inr (Returned h s1)
            \<and> use_count h s1 = Inr 1 \<and> operator_bool h = False \<and> get h = Nullptr
            \<and> cb h = Some a)"
  using assms by (simp add: ctor_defs)

theorem null_raw_pointer_has_block_witness:
  "(\<exists>h s1. shared_ptr_raw Nullptr (Some 3) (init :: int state) = Inr (Returned h s1)
            \<and> use_count h s1 = Inr 1 \<and> operator_bool h = False \<and> get h = Nullptr
            \<and> cb h = Some 3)
       \<and> (\<exists>h s1. shared_ptr_raw_deleter Nullptr (Action 1) (Some 3) (init :: int state)
              = Inr (Returned h s1)
            \<and> use_count h s1 = Inr 1 \<and> operator_bool h = False \<and> get h = Nullptr
            \<and> cb h = Some 3)"
  using null_raw_pointer_has_block [of "init :: int state" 3 "Action 1"]
  by (simp add: init_def)

end
